theory Spec2Isabelle
  imports Complex_Main
begin

section \<open>JobManager: the in-memory job store\<close>

text \<open>
  A job object as \<^verbatim>\<open>addJob\<close> builds it, together with the properties the two
  controllers attach later (\<^verbatim>\<open>error\<close>, \<^verbatim>\<open>pdf_path\<close>, \<^verbatim>\<open>pdf_filename\<close>); a property
  that has not been assigned is \<open>None\<close>. The field \<^verbatim>\<open>id\<close> is called \<open>id_local\<close>
  here. \<^verbatim>\<open>job_id = null\<close> is \<open>None\<close>. Progress is a JavaScript number, a real
  here (the finite binary64 values are reals); \<^verbatim>\<open>created_at\<close> is a millisecond time
  stamp.
\<close>

record job =
  id_local :: string
  job_id :: "string option"
  filename :: string
  status :: string
  progress :: real
  created_at :: nat
  error :: "string option"
  pdf_path :: "string option"
  pdf_filename :: "string option"

text \<open>Decimal rendering of a non-negative integer, as string concatenation does it.\<close>

definition digit_char :: "nat \<Rightarrow> char" where
  "digit_char d = ''0123456789'' ! d"

fun number_toString :: "nat \<Rightarrow> string" where
  "number_toString n =
     (if n < 10 then [digit_char n]
      else number_toString (n div 10) @ [digit_char (n mod 10)])"

declare number_toString.simps [simp del]

text \<open>
  \<^verbatim>\<open>addJob(filename)\<close>. The three readings of the environment are arguments:
  \<open>now\<close> is \<^verbatim>\<open>Date.now()\<close>, \<open>rnd\<close> is the string
  \<^verbatim>\<open>Math.random().toString(36).substr(2, 9)\<close>, and \<open>date\<close> is \<^verbatim>\<open>new Date()\<close>.
  The result is the new job and the store with the job pushed at its end.
  \<open>new_id\<close> is the expression that builds the identifier.
\<close>

definition new_id :: "nat \<Rightarrow> string \<Rightarrow> string" where
  "new_id now rnd = ''temp_'' @ number_toString now @ ''_'' @ rnd"

definition addJob :: "nat \<Rightarrow> string \<Rightarrow> nat \<Rightarrow> string \<Rightarrow> job list \<Rightarrow> job \<times> job list" where
  "addJob now rnd date fname jobs =
     (let ident = new_id now rnd;
          j = \<lparr> id_local = ident, job_id = None, filename = fname,
                status = ''pending'', progress = 0, created_at = date,
                error = None, pdf_path = None, pdf_filename = None \<rparr>
      in (j, jobs @ [j]))"

text \<open>\<^verbatim>\<open>getJob(id)\<close>: \<^verbatim>\<open>Array.prototype.find\<close>, \<open>None\<close> for \<^verbatim>\<open>undefined\<close>.\<close>

definition getJob :: "string \<Rightarrow> job list \<Rightarrow> job option" where
  "getJob i jobs = find (\<lambda>j. id_local j = i) jobs"

text \<open>
  Truthiness of an optional string argument: an omitted argument, \<^verbatim>\<open>undefined\<close>,
  \<^verbatim>\<open>null\<close> (all \<open>None\<close>) and the empty string are falsy.
\<close>

definition truthy :: "string option \<Rightarrow> bool" where
  "truthy v = (case v of None \<Rightarrow> False | Some s \<Rightarrow> s \<noteq> [])"

text \<open>
  The three guarded assignments of \<^verbatim>\<open>updateJobStatus\<close>, applied to the job found.
  For \<open>progress\<close>, \<open>None\<close> is \<^verbatim>\<open>undefined\<close>.
\<close>

definition assign_fields :: "string option \<Rightarrow> real option \<Rightarrow> string option \<Rightarrow> job \<Rightarrow> job" where
  "assign_fields st pr serverJobId j =
     (let j1 = (if truthy st then j\<lparr>status := the st\<rparr> else j);
          j2 = (case pr of None \<Rightarrow> j1 | Some p \<Rightarrow> j1\<lparr>progress := p\<rparr>);
          j3 = (if truthy serverJobId then j2\<lparr>job_id := serverJobId\<rparr> else j2)
      in j3)"

text \<open>
  Mutating the object that \<^verbatim>\<open>find\<close> returned changes the first matching element of
  the array and no other.
\<close>

fun mutate_first :: "('a \<Rightarrow> bool) \<Rightarrow> ('a \<Rightarrow> 'a) \<Rightarrow> 'a list \<Rightarrow> 'a list" where
  "mutate_first P f [] = []"
| "mutate_first P f (x # xs) = (if P x then f x # xs else x # mutate_first P f xs)"

text \<open>
  \<^verbatim>\<open>updateJobStatus(id, status, progress, serverJobId = null)\<close>: the returned value
  (\<open>None\<close> for \<^verbatim>\<open>null\<close>) and the store afterwards.
\<close>

definition updateJobStatus ::
  "string \<Rightarrow> string option \<Rightarrow> real option \<Rightarrow> string option \<Rightarrow> job list \<Rightarrow> job option \<times> job list" where
  "updateJobStatus i st pr serverJobId jobs =
     (case getJob i jobs of
        Some j \<Rightarrow> (Some (assign_fields st pr serverJobId j),
                   mutate_first (\<lambda>j. id_local j = i) (assign_fields st pr serverJobId) jobs)
      | None \<Rightarrow> (None, jobs))"

text \<open>\<^verbatim>\<open>getJobByServerId(serverJobId)\<close>, with \<^verbatim>\<open>===\<close> on \<^verbatim>\<open>null\<close> or a string.\<close>

definition getJobByServerId :: "string option \<Rightarrow> job list \<Rightarrow> job option" where
  "getJobByServerId serverJobId jobs = find (\<lambda>j. job_id j = serverJobId) jobs"

definition getAllJobs :: "job list \<Rightarrow> job list" where
  "getAllJobs jobs = jobs"


text \<open>A sequence of \<^verbatim>\<open>addJob\<close> calls on one store: the jobs returned, in call order,
  and the final store. Each call is (now, rnd, date, filename).\<close>

fun addJobs :: "(nat \<times> string \<times> nat \<times> string) list \<Rightarrow> job list \<Rightarrow> job list \<times> job list" where
  "addJobs [] jobs = ([], jobs)"
| "addJobs ((now, rnd, date, fname) # cs) jobs =
     (let (j, jobs1) = addJob now rnd date fname jobs;
          (js, jobs2) = addJobs cs jobs1
      in (j # js, jobs2))"


section \<open>String helpers used by both controllers\<close>

text \<open>\<^verbatim>\<open>s.split(c)\<close> for a one-character separator; the result is never empty.\<close>

fun split_on :: "char \<Rightarrow> string \<Rightarrow> string list" where
  "split_on c [] = [[]]"
| "split_on c (x # xs) =
     (if x = c then [] # split_on c xs
      else (case split_on c xs of [] \<Rightarrow> [[x]] | w # ws \<Rightarrow> (x # w) # ws))"

text \<open>\<^verbatim>\<open>.pop()\<close> on the array that \<^verbatim>\<open>split\<close> returned: its last element.\<close>

definition pop :: "string list \<Rightarrow> string" where
  "pop segs = last segs"

text \<open>\<^verbatim>\<open>toLowerCase()\<close> on the ASCII letters; every other character is kept.\<close>

definition toLowerCase_char :: "char \<Rightarrow> char" where
  "toLowerCase_char c =
     (case map_of (zip ''ABCDEFGHIJKLMNOPQRSTUVWXYZ'' ''abcdefghijklmnopqrstuvwxyz'') c of
        Some l \<Rightarrow> l
      | None \<Rightarrow> c)"

definition toLowerCase :: "string \<Rightarrow> string" where
  "toLowerCase s = map toLowerCase_char s"

section \<open>Effects of the controllers\<close>

record js_file =
  file_name :: string
  file_size :: nat

text \<open>
  What a controller does besides changing the store: the calls it makes to the page
  (\<^verbatim>\<open>alert\<close>, \<^verbatim>\<open>console.error\<close>, \<^verbatim>\<open>createJobElement\<close>, \<^verbatim>\<open>updateJobElement\<close>) and to
  the backend. \<open>CheckStatus localId serverJobId\<close> is the call
  \<^verbatim>\<open>API.checkStatus(serverJobId)\<close> made by \<^verbatim>\<open>pollStatus(localId, serverJobId)\<close>.
  \<open>AlertLocalized\<close> is the Korean-language alert of the desktop front end, which names
  the file. \<open>Uncaught\<close> records an exception that leaves an async function.
\<close>

datatype event =
    Alert string
  | AlertLocalized string
  | ConsoleError string
  | CreateJobElement job
  | UpdateJobElement job
  | UploadFile js_file
  | CheckStatus string "string option"
  | ConvertFile string
  | Uncaught string

text \<open>
  A suspended computation: an async function waiting at its \<^verbatim>\<open>await\<close>, or a pending
  \<^verbatim>\<open>setTimeout\<close> callback with its delay.
\<close>

datatype task =
    AwaitUpload string js_file
  | AwaitStatus string "string option"
  | Timer string "string option" nat
  | AwaitConvert nat string

text \<open>
  The result of running one synchronous stretch of code: the store afterwards, the
  calls made, the computation left suspended (if any), and the exception that escaped
  (if any).
\<close>

record outcome =
  store :: "job list"
  emitted :: "event list"
  spawned :: "task option"
  thrown :: "string option"

text \<open>What the backend answers.\<close>

datatype upload_result =
    Accepted "string option"   \<comment> \<open>resolved; the argument is \<^verbatim>\<open>data.job_id\<close>\<close>
  | Rejected string            \<comment> \<open>rejected; the argument is \<^verbatim>\<open>error.message\<close>\<close>

record status_data =
  data_status :: string
  data_error :: "string option"

datatype status_result =
    Response status_data       \<comment> \<open>\<^verbatim>\<open>API.checkStatus\<close> resolved\<close>
  | QueryError                 \<comment> \<open>\<^verbatim>\<open>API.checkStatus\<close> rejected\<close>

section \<open>JavaScript numbers\<close>

text \<open>
  A JavaScript number is an IEEE 754 binary64 value. The finite ones are real numbers,
  and the result of an arithmetic operation is the exact result rounded to the nearest
  representable value, ties going to the even significand. \<open>binade x\<close> is the exponent
  of the binary interval of \<open>x\<close> (no lower than that of the subnormal numbers),
  \<open>ulp64 x\<close> the spacing of the representable values there, \<open>fl64 x\<close> the rounded
  value and \<open>rep64 x\<close> says that \<open>x\<close> is a multiple of that spacing, which below
  \<open>2^1024\<close> means that \<open>x\<close> is representable. A result of magnitude
  \<open>2^1024\<close> or more is \<^verbatim>\<open>Infinity\<close> in JavaScript and has no counterpart here; the
  numbers of this program stay below 100.
\<close>

definition round_half_even :: "real \<Rightarrow> int" where
  "round_half_even y =
     (let f = \<lfloor>y\<rfloor>
      in if y - of_int f < 1 / 2 then f
         else if 1 / 2 < y - of_int f then f + 1
         else if even f then f else f + 1)"

definition binade :: "real \<Rightarrow> int" where
  "binade x = max \<lfloor>log 2 \<bar>x\<bar>\<rfloor> (- 1022)"

definition ulp64 :: "real \<Rightarrow> real" where
  "ulp64 x = 2 powr (of_int (binade x) - 52)"

definition fl64 :: "real \<Rightarrow> real" where
  "fl64 x = (if x = 0 then 0 else ulp64 x * of_int (round_half_even (x / ulp64 x)))"

definition rep64 :: "real \<Rightarrow> bool" where
  "rep64 x \<longleftrightarrow> x / ulp64 x \<in> \<int>"

section \<open>The upload-and-poll controller\<close>

definition POLL_INTERVAL :: nat where
  "POLL_INTERVAL = 1500"

definition MAX_FILE_SIZE :: nat where
  "MAX_FILE_SIZE = 50 * 1024 * 1024"

text \<open>\<^verbatim>\<open>job.error = msg\<close> on the object that \<^verbatim>\<open>getJob(localId)\<close> returned.\<close>

definition set_error :: "string \<Rightarrow> string \<Rightarrow> job list \<Rightarrow> job list" where
  "set_error localId msg jobs =
     mutate_first (\<lambda>j. id_local j = localId) (\<lambda>j. j\<lparr>error := Some msg\<rparr>) jobs"

text \<open>\<^verbatim>\<open>updateJobElement(job)\<close> for the object that \<^verbatim>\<open>getJob(localId)\<close> returned
  earlier in the same stretch of code, in its current state.\<close>

definition notify :: "string \<Rightarrow> job list \<Rightarrow> event list" where
  "notify localId jobs =
     (case getJob localId jobs of Some j \<Rightarrow> [UpdateJobElement j] | None \<Rightarrow> [])"

text \<open>
  The \<^verbatim>\<open>catch\<close> block of \<^verbatim>\<open>processFile\<close>. \<^verbatim>\<open>failedJob.error = ...\<close> throws a
  \<^verbatim>\<open>TypeError\<close> when \<^verbatim>\<open>getJob\<close> returns \<^verbatim>\<open>undefined\<close>.
\<close>

definition processFile_catch :: "string \<Rightarrow> string \<Rightarrow> job list \<Rightarrow> outcome" where
  "processFile_catch localId msg jobs =
     (let jobs1 = snd (updateJobStatus localId (Some ''failed'') (Some 0) None jobs)
      in case getJob localId jobs1 of
           None \<Rightarrow> \<lparr> store = jobs1, emitted = [ConsoleError msg], spawned = None,
                      thrown = Some ''TypeError'' \<rparr>
         | Some failedJob \<Rightarrow>
             (let jobs2 = set_error localId msg jobs1
              in \<lparr> store = jobs2, emitted = ConsoleError msg # notify localId jobs2,
                    spawned = None, thrown = None \<rparr>))"

text \<open>
  \<^verbatim>\<open>processFile(file)\<close> up to \<^verbatim>\<open>await API.uploadFile(file)\<close>. Passing
  \<^verbatim>\<open>undefined\<close> to \<^verbatim>\<open>updateJobElement\<close> throws a \<^verbatim>\<open>TypeError\<close>, which the
  \<^verbatim>\<open>try\<close> catches.
\<close>

definition processFile_start :: "js_file \<Rightarrow> nat \<Rightarrow> string \<Rightarrow> nat \<Rightarrow> job list \<Rightarrow> outcome" where
  "processFile_start f now rnd date jobs =
     (let ext = toLowerCase (pop (split_on CHR ''.'' (file_name f)))
      in if ext \<notin> set [''hwp'', ''hwpx'', ''odt'', ''docx''] then
           \<lparr> store = jobs,
             emitted = [Alert (''Skipped '' @ file_name f @ '': Unsupported file type.'')],
             spawned = None, thrown = None \<rparr>
         else if file_size f > MAX_FILE_SIZE then
           \<lparr> store = jobs,
             emitted = [Alert (''Skipped '' @ file_name f @ '': File too large.'')],
             spawned = None, thrown = None \<rparr>
         else
           (let (j, jobs1) = addJob now rnd date (file_name f) jobs;
                jobs2 = snd (updateJobStatus (id_local j) (Some ''uploading'') (Some 10) None jobs1)
            in case getJob (id_local j) jobs2 of
                 Some j2 \<Rightarrow>
                   \<lparr> store = jobs2,
                     emitted = [CreateJobElement j, UpdateJobElement j2, UploadFile f],
                     spawned = Some (AwaitUpload (id_local j) f), thrown = None \<rparr>
               | None \<Rightarrow>
                   (let r = processFile_catch (id_local j) ''TypeError'' jobs2
                    in r\<lparr>emitted := CreateJobElement j # emitted r\<rparr>)))"

text \<open>
  \<^verbatim>\<open>pollStatus(localId, serverJobId)\<close> up to \<^verbatim>\<open>await API.checkStatus(serverJobId)\<close>.
\<close>

definition pollStatus_start :: "string \<Rightarrow> string option \<Rightarrow> job list \<Rightarrow> outcome" where
  "pollStatus_start localId serverJobId jobs =
     \<lparr> store = jobs, emitted = [CheckStatus localId serverJobId],
       spawned = Some (AwaitStatus localId serverJobId), thrown = None \<rparr>"

text \<open>
  \<^verbatim>\<open>processFile\<close> from the point where \<^verbatim>\<open>API.uploadFile\<close> settles. On acceptance it
  calls \<^verbatim>\<open>pollStatus\<close>, which runs up to its own \<^verbatim>\<open>await\<close>.
\<close>

definition processFile_resume :: "string \<Rightarrow> upload_result \<Rightarrow> job list \<Rightarrow> outcome" where
  "processFile_resume localId up jobs =
     (case up of
        Rejected msg \<Rightarrow> processFile_catch localId msg jobs
      | Accepted serverJobId \<Rightarrow>
          (let jobs1 = snd (updateJobStatus localId (Some ''processing'') (Some 30) serverJobId jobs)
           in case getJob localId jobs1 of
                None \<Rightarrow> processFile_catch localId ''TypeError'' jobs1
              | Some j \<Rightarrow>
                  (let r = pollStatus_start localId serverJobId jobs1
                   in r\<lparr>emitted := UpdateJobElement j # emitted r\<rparr>)))"

text \<open>
  \<^verbatim>\<open>pollStatus\<close> from the point where \<^verbatim>\<open>API.checkStatus\<close> settles; \<open>rand\<close> is the
  value of \<^verbatim>\<open>Math.random()\<close>, read only in the last branch. The product and the sum
  of \<^verbatim>\<open>newProgress += (Math.random() * 5)\<close> are each rounded. In the \<^verbatim>\<open>catch\<close>
  block \<^verbatim>\<open>job.error = ...\<close> throws a \<^verbatim>\<open>TypeError\<close> when \<^verbatim>\<open>getJob\<close> returns
  \<^verbatim>\<open>undefined\<close>.
\<close>

definition pollStatus_resume ::
  "string \<Rightarrow> string option \<Rightarrow> status_result \<Rightarrow> real \<Rightarrow> job list \<Rightarrow> outcome" where
  "pollStatus_resume localId serverJobId res rand jobs =
     (case res of
        Response d \<Rightarrow>
          (case getJob localId jobs of
             None \<Rightarrow> \<lparr> store = jobs, emitted = [], spawned = None, thrown = None \<rparr>
           | Some j \<Rightarrow>
               if data_status d = ''completed'' then
                 (let jobs1 = snd (updateJobStatus localId (Some ''completed'') (Some 100) None jobs)
                  in \<lparr> store = jobs1, emitted = notify localId jobs1,
                        spawned = None, thrown = None \<rparr>)
               else if data_status d = ''failed'' then
                 (let jobs1 = set_error localId
                                (if truthy (data_error d) then the (data_error d)
                                 else ''Failed on server'') jobs;
                      jobs2 = snd (updateJobStatus localId (Some ''failed'') (Some 0) None jobs1)
                  in \<lparr> store = jobs2, emitted = notify localId jobs2,
                        spawned = None, thrown = None \<rparr>)
               else
                 (let newProgress = (if progress j < 90
                                     then fl64 (progress j + fl64 (rand * 5))
                                     else progress j);
                      jobs1 = snd (updateJobStatus localId (Some ''processing'')
                                     (Some newProgress) None jobs)
                  in \<lparr> store = jobs1, emitted = notify localId jobs1,
                        spawned = Some (Timer localId serverJobId POLL_INTERVAL),
                        thrown = None \<rparr>))
      | QueryError \<Rightarrow>
          (case getJob localId jobs of
             None \<Rightarrow> \<lparr> store = jobs, emitted = [], spawned = None,
                        thrown = Some ''TypeError'' \<rparr>
           | Some j \<Rightarrow>
               (let jobs1 = set_error localId ''Network error during polling'' jobs;
                    jobs2 = snd (updateJobStatus localId (Some ''failed'') (Some 0) None jobs1)
                in \<lparr> store = jobs2, emitted = notify localId jobs2,
                      spawned = None, thrown = None \<rparr>)))"


section \<open>The controller as a transition system\<close>

text \<open>
  The page runs one stretch of code at a time. The state is the store, the suspended
  computations and everything done so far. An action is what the environment does
  next: the user submits a file (with the three environment readings of \<open>addJob\<close>),
  an upload settles, a timer fires, or a status query settles (with the value
  \<^verbatim>\<open>Math.random()\<close> would return, which lies in \<open>[0, 1)\<close>). An action that names a
  computation that is not suspended cannot happen. The controller never calls
  \<^verbatim>\<open>removeJob\<close>, so there is no action for it.
\<close>

record sys =
  sys_store :: "job list"
  sys_tasks :: "task list"
  sys_trace :: "event list"

datatype action =
    Submit js_file nat string nat
  | UploadSettles string js_file upload_result
  | TimerFires string "string option" nat
  | StatusSettles string "string option" status_result real

definition init :: sys where
  "init = \<lparr> sys_store = [], sys_tasks = [], sys_trace = [] \<rparr>"

definition absorb :: "sys \<Rightarrow> outcome \<Rightarrow> sys" where
  "absorb s r =
     \<lparr> sys_store = store r,
       sys_tasks = sys_tasks s @ (case spawned r of None \<Rightarrow> [] | Some t \<Rightarrow> [t]),
       sys_trace = sys_trace s @ emitted r
                   @ (case thrown r of None \<Rightarrow> [] | Some e \<Rightarrow> [Uncaught e]) \<rparr>"

definition resume_task :: "task \<Rightarrow> sys \<Rightarrow> (job list \<Rightarrow> outcome) \<Rightarrow> sys option" where
  "resume_task t s code =
     (if t \<in> set (sys_tasks s)
      then Some (absorb (s\<lparr>sys_tasks := remove1 t (sys_tasks s)\<rparr>) (code (sys_store s)))
      else None)"

fun step :: "action \<Rightarrow> sys \<Rightarrow> sys option" where
  "step (Submit f now rnd date) s =
     Some (absorb s (processFile_start f now rnd date (sys_store s)))"
| "step (UploadSettles localId f up) s =
     resume_task (AwaitUpload localId f) s (processFile_resume localId up)"
| "step (TimerFires localId serverJobId ms) s =
     resume_task (Timer localId serverJobId ms) s (pollStatus_start localId serverJobId)"
| "step (StatusSettles localId serverJobId res rand) s =
     (if 0 \<le> rand \<and> rand < 1
      then resume_task (AwaitStatus localId serverJobId) s
             (pollStatus_resume localId serverJobId res rand)
      else None)"

fun run :: "action list \<Rightarrow> sys \<Rightarrow> sys option" where
  "run [] s = Some s"
| "run (a # as) s = (case step a s of None \<Rightarrow> None | Some s1 \<Rightarrow> run as s1)"

text \<open>The order of the life cycle, and its two final states.\<close>

definition terminal :: "string \<Rightarrow> bool" where
  "terminal st = (st = ''completed'' \<or> st = ''failed'')"

definition status_rank :: "string \<Rightarrow> nat" where
  "status_rank st =
     (if st = ''pending'' then 0
      else if st = ''uploading'' then 1
      else if st = ''processing'' then 2
      else 3)"

section \<open>The local-conversion controller (ui.js)\<close>



text \<open>
  \<^verbatim>\<open>processFile(filePath)\<close> up to \<^verbatim>\<open>await convert_file(filePath)\<close>. The suspended
  computation holds the job object itself; it is identified by its position in the
  array, which never changes because this controller never removes a job. The call
  \<^verbatim>\<open>updateJobElement(jobManager.getJob(job.id))\<close> is outside any \<^verbatim>\<open>try\<close> here.
\<close>

definition ui_processFile_start :: "string \<Rightarrow> nat \<Rightarrow> string \<Rightarrow> nat \<Rightarrow> job list \<Rightarrow> outcome" where
  "ui_processFile_start filePath now rnd date jobs =
     (let fname = pop (split_on CHR ''/'' (pop (split_on (CHR 0x5C) filePath)));
          ext = toLowerCase (pop (split_on CHR ''.'' fname))
      in if ext \<notin> set [''hwp'', ''hwpx''] then
           \<lparr> store = jobs, emitted = [AlertLocalized fname], spawned = None, thrown = None \<rparr>
         else
           (let (j, jobs1) = addJob now rnd date fname jobs;
                jobs2 = snd (updateJobStatus (id_local j) (Some ''processing'') (Some 30) None jobs1)
            in case getJob (id_local j) jobs2 of
                 Some j2 \<Rightarrow>
                   \<lparr> store = jobs2,
                     emitted = [CreateJobElement j, UpdateJobElement j2, ConvertFile filePath],
                     spawned = Some (AwaitConvert (length jobs) filePath), thrown = None \<rparr>
               | None \<Rightarrow>
                   \<lparr> store = jobs2, emitted = [CreateJobElement j], spawned = None,
                     thrown = Some ''TypeError'' \<rparr>))"


text \<open>Example files, two example submissions, and an example job record.\<close>

definition report_hwp :: js_file where
  "report_hwp = \<lparr> file_name = ''report.hwp'', file_size = 1024 \<rparr>"

definition big_hwp :: js_file where
  "big_hwp = \<lparr> file_name = ''big.hwp'', file_size = 55 * 1024 * 1024 \<rparr>"

definition archive_zip :: js_file where
  "archive_zip = \<lparr> file_name = ''archive.zip'', file_size = 1024 \<rparr>"

definition doc_odt :: js_file where
  "doc_odt = \<lparr> file_name = ''doc.odt'', file_size = 55 * 1024 * 1024 \<rparr>"

definition two_submissions :: "(nat \<times> string \<times> nat \<times> string) list" where
  "two_submissions =
     [(1730000000000, ''4fzzzxjyl'', 1730000000000, ''first.hwp''),
      (1730000000001, ''k2m81qpx0'', 1730000000001, ''second.hwp'')]"

definition sample_job :: job where
  "sample_job = \<lparr> id_local = ''temp_1730000000000_4fzzzxjyl'', job_id = Some ''J1'',
                   filename = ''report.hwp'', status = ''processing'', progress = 30,
                   created_at = 1730000000000, error = None, pdf_path = None,
                   pdf_filename = None \<rparr>"



text \<open>
  The example job while its upload is awaited and after a \<^verbatim>\<open>completed\<close> answer, and the
  states of the transition system after the upload was accepted and after that answer.
\<close>

definition j_up :: job where
  "j_up = sample_job\<lparr>job_id := None, status := ''uploading'', progress := 10\<rparr>"

definition j_done :: job where
  "j_done = sample_job\<lparr>status := ''completed'', progress := 100\<rparr>"

definition s_processing :: sys where
  "s_processing =
     \<lparr> sys_store = [sample_job],
       sys_tasks = [AwaitStatus ''temp_1730000000000_4fzzzxjyl'' (Some ''J1'')],
       sys_trace = [CreateJobElement (j_up\<lparr>status := ''pending'', progress := 0\<rparr>),
                    UpdateJobElement j_up, UploadFile report_hwp,
                    UpdateJobElement sample_job,
                    CheckStatus ''temp_1730000000000_4fzzzxjyl'' (Some ''J1'')] \<rparr>"

definition s_completed :: sys where
  "s_completed =
     \<lparr> sys_store = [j_done], sys_tasks = [],
       sys_trace = sys_trace s_processing @ [UpdateJobElement j_done] \<rparr>"

section \<open>Auxiliary notions for the proofs\<close>

text \<open>Position \<open>k\<close> holds the job that \<open>getJob i\<close> returns: the first one with identifier \<open>i\<close>.\<close>

definition first_at :: "string \<Rightarrow> job list \<Rightarrow> nat \<Rightarrow> bool" where
  "first_at i jobs k \<longleftrightarrow>
     k < length jobs \<and> id_local (jobs ! k) = i \<and> (\<forall>m<k. id_local (jobs ! m) \<noteq> i)"

text \<open>
  The poll loop of one job run for \<open>n\<close> ticks, every query settling with the same
  answer and \<^verbatim>\<open>Math.random()\<close> returning the same value: the store after the last tick.
\<close>

fun poll_ticks ::
  "nat \<Rightarrow> string \<Rightarrow> string option \<Rightarrow> status_result \<Rightarrow> real \<Rightarrow> job list \<Rightarrow> job list" where
  "poll_ticks 0 localId serverJobId res rand jobs = jobs"
| "poll_ticks (Suc n) localId serverJobId res rand jobs =
     poll_ticks n localId serverJobId res rand
       (store (pollStatus_resume localId serverJobId res rand jobs))"

text \<open>
  The job a suspended computation of the upload-and-poll controller works for, and the
  status that job has while the computation is suspended. (The last case belongs to the
  other controller.)
\<close>

fun task_owner :: "task \<Rightarrow> string" where
  "task_owner (AwaitUpload i f) = i"
| "task_owner (AwaitStatus i sid) = i"
| "task_owner (Timer i sid ms) = i"
| "task_owner (AwaitConvert k p) = []"

fun task_phase :: "task \<Rightarrow> string" where
  "task_phase (AwaitUpload i f) = ''uploading''"
| "task_phase (AwaitStatus i sid) = ''processing''"
| "task_phase (Timer i sid ms) = ''processing''"
| "task_phase (AwaitConvert k p) = ''processing''"

definition known_status :: "string \<Rightarrow> bool" where
  "known_status st \<longleftrightarrow> st \<in> set [''uploading'', ''processing'', ''completed'', ''failed'']"

text \<open>
  The invariant of the transition system: every job has at most one suspended
  computation, the job of a suspended computation is in the store with the status of
  that wait, and every status is one of the four a job can have after its creation.
\<close>

definition consistent :: "sys \<Rightarrow> bool" where
  "consistent s \<longleftrightarrow>
     distinct (map task_owner (sys_tasks s)) \<and>
     (\<forall>t\<in>set (sys_tasks s). \<exists>j\<in>set (sys_store s).
         id_local j = task_owner t \<and> status j = task_phase t) \<and>
     (\<forall>j\<in>set (sys_store s). known_status (status j))"

text \<open>
  What may change between a state and a later one: the trace and the store grow, a job
  keeps its place and its identifier, its status does not go back, a job that was
  \<^verbatim>\<open>completed\<close> or \<^verbatim>\<open>failed\<close> is unchanged and no status query is made for it, and a
  job is shown as \<^verbatim>\<open>pending\<close> when it is created.
\<close>

definition advances :: "sys \<Rightarrow> sys \<Rightarrow> bool" where
  "advances s s' \<longleftrightarrow>
     (\<exists>es. sys_trace s' = sys_trace s @ es \<and>
        length (sys_store s) \<le> length (sys_store s') \<and>
        (\<forall>k<length (sys_store s).
           id_local (sys_store s' ! k) = id_local (sys_store s ! k) \<and>
           status_rank (status (sys_store s ! k)) \<le> status_rank (status (sys_store s' ! k)) \<and>
           (terminal (status (sys_store s ! k)) \<longrightarrow>
              sys_store s' ! k = sys_store s ! k \<and>
              (\<forall>sid. CheckStatus (id_local (sys_store s ! k)) sid \<notin> set es))) \<and>
        (\<forall>j. CreateJobElement j \<in> set es \<longrightarrow> status j = ''pending''))"

text \<open>
  A stretch of code that works for job \<open>i\<close>, waiting in phase \<open>ph\<close>: it changes that
  job only, moves its status forward, leaves a computation that fits the new status,
  queries the status of no other job and throws nothing.
\<close>

definition moves_job :: "string \<Rightarrow> string \<Rightarrow> job list \<Rightarrow> outcome \<Rightarrow> bool" where
  "moves_job i ph jobs r \<longleftrightarrow>
     (\<exists>k j'. first_at i jobs k \<and> store r = jobs[k := j'] \<and> id_local j' = i \<and>
        known_status (status j') \<and> status_rank ph \<le> status_rank (status j') \<and>
        (case spawned r of None \<Rightarrow> True
         | Some t' \<Rightarrow> task_owner t' = i \<and> task_phase t' = status j') \<and>
        (\<forall>l sid. CheckStatus l sid \<in> set (emitted r) \<longrightarrow> l = i) \<and>
        (\<forall>j. CreateJobElement j \<notin> set (emitted r)) \<and> thrown r = None)"

text \<open>
  A second invariant, which needs no assumption on the identifiers: the job of every
  suspended computation is in the store, and no exception has escaped.
\<close>

definition owned :: "sys \<Rightarrow> bool" where
  "owned s \<longleftrightarrow>
     (\<forall>t\<in>set (sys_tasks s). task_owner t \<in> id_local ` set (sys_store s)) \<and>
     (\<forall>e. Uncaught e \<notin> set (sys_trace s))"

section \<open>Properties of the job store\<close>

subsection \<open>Identifiers\<close>

lemma digit_lt10: "d < (10::nat) \<Longrightarrow> d \<in> {0,1,2,3,4,5,6,7,8,9}"
  by auto

lemma digit_char_not_us: "d < 10 \<Longrightarrow> digit_char d \<noteq> CHR ''_''"
  by (drule digit_lt10) (auto simp: digit_char_def)

lemma digit_char_inj: "a < 10 \<Longrightarrow> b < 10 \<Longrightarrow> digit_char a = digit_char b \<Longrightarrow> a = b"
  apply (drule digit_lt10)
  apply (drule digit_lt10)
  apply (simp add: digit_char_def)
  apply (elim disjE; simp)
  done

lemma number_toString_nonempty: "number_toString n \<noteq> []"
  by (subst number_toString.simps) simp

lemma number_toString_no_us: "CHR ''_'' \<notin> set (number_toString n)"
proof (induction n rule: number_toString.induct)
  case (1 n)
  show ?case
  proof (cases "n < 10")
    case True
    then show ?thesis
      using digit_char_not_us [of n] by (subst number_toString.simps) auto
  next
    case False
    then show ?thesis
      using 1 digit_char_not_us [of "n mod 10"]
      by (subst number_toString.simps) auto
  qed
qed

lemma number_toString_inj: "number_toString a = number_toString b \<Longrightarrow> a = b"
proof (induction a arbitrary: b rule: number_toString.induct)
  case (1 a)
  show ?case
  proof (cases "a < 10")
    case a_small: True
    show ?thesis
    proof (cases "b < 10")
      case True
      with a_small 1(2) show ?thesis
        by (simp add: number_toString.simps [of a] number_toString.simps [of b] digit_char_inj)
    next
      case False
      with a_small 1(2) number_toString_nonempty [of "b div 10"] show ?thesis
        by (simp add: number_toString.simps [of a] number_toString.simps [of b]
            Cons_eq_append_conv)
    qed
  next
    case a_big: False
    show ?thesis
    proof (cases "b < 10")
      case True
      with a_big 1(2) number_toString_nonempty [of "a div 10"] show ?thesis
        by (simp add: number_toString.simps [of a] number_toString.simps [of b]
            append_eq_Cons_conv)
    next
      case False
      with a_big 1(2) have q: "number_toString (a div 10) = number_toString (b div 10)"
        and r: "digit_char (a mod 10) = digit_char (b mod 10)"
        by (simp_all add: number_toString.simps [of a] number_toString.simps [of b])
      from 1(1) [OF a_big q] have "a div 10 = b div 10" .
      moreover from r have "a mod 10 = b mod 10"
        by (intro digit_char_inj) simp_all
      ultimately show ?thesis
        by (metis div_mult_mod_eq)
    qed
  qed
qed

lemma split_at_separator:
  "c \<notin> set xs \<Longrightarrow> c \<notin> set ys \<Longrightarrow> xs @ c # us = ys @ c # vs \<Longrightarrow> xs = ys \<and> us = vs"
proof (induction xs arbitrary: ys)
  case Nil
  then show ?case by (cases ys) auto
next
  case (Cons x xs)
  then show ?case by (cases ys) auto
qed

lemma new_id_inj: "new_id n1 r1 = new_id n2 r2 \<Longrightarrow> n1 = n2 \<and> r1 = r2"
  using split_at_separator [of "CHR ''_''" "number_toString n1" "number_toString n2" r1 r2]
  by (auto simp: new_id_def number_toString_no_us dest: number_toString_inj)

lemma addJob_id: "id_local (fst (addJob now rnd date fname jobs)) = new_id now rnd"
  by (simp add: addJob_def Let_def)

lemma addJobs_ids:
  "map id_local (fst (addJobs cs jobs)) = map (\<lambda>(now, rnd, date, fname). new_id now rnd) cs"
proof (induction cs arbitrary: jobs)
  case Nil
  show ?case by simp
next
  case (Cons c cs)
  obtain now rnd date fname where c: "c = (now, rnd, date, fname)"
    by (cases c) auto
  obtain j jobs1 where a: "addJob now rnd date fname jobs = (j, jobs1)"
    by (cases "addJob now rnd date fname jobs") auto
  have "id_local j = new_id now rnd"
    using addJob_id [of now rnd date fname jobs] a by simp
  then show ?case
    using Cons.IH [of jobs1] a c by (simp add: split_beta)
qed

text \<open>
  C5. As stated (the identifiers returned by any sequence of \<open>addJob\<close> calls are pairwise
  distinct) the claim fails: the identifier is a function of the clock reading and the
  random string alone, and nothing compares it with the identifiers already held. Two
  calls that read the same millisecond and draw the same random string return the same
  identifier.
\<close>

theorem addJobs_ids_collide:
  "\<not> distinct (map id_local (fst (addJobs
      [(1730000000000, ''4fzzzxjyl'', 1730000000000, ''a.hwp''),
       (1730000000000, ''4fzzzxjyl'', 1730000000001, ''b.hwp'')] [])))"
  by (simp add: addJob_def Let_def)

text \<open>
  C5, amended. For every sequence of \<open>addJob\<close> calls in which no two calls have both
  the same clock reading and the same random string, the identifiers returned are
  pairwise distinct, whatever the file names and the store.
\<close>

theorem addJobs_ids_distinct:
  assumes "distinct (map (\<lambda>(now, rnd, date, fname). (now, rnd)) cs)"
  shows "distinct (map id_local (fst (addJobs cs jobs)))"
proof -
  have "map (\<lambda>(now, rnd, date, fname). new_id now rnd) cs
        = map (\<lambda>(now, rnd). new_id now rnd) (map (\<lambda>(now, rnd, date, fname). (now, rnd)) cs)"
    by (simp add: split_beta)
  moreover have "inj_on (\<lambda>(now, rnd). new_id now rnd) A" for A
    by (auto simp: inj_on_def dest: new_id_inj)
  ultimately show ?thesis
    using assms by (simp only: addJobs_ids distinct_map)
qed

theorem addJobs_ids_distinct_witness:
  "distinct (map (\<lambda>(now, rnd, date, fname). (now, rnd))
      [(1730000000000::nat, ''4fzzzxjyl'', 1730000000000::nat, ''a.hwp''),
       (1730000000000, ''k2m81qpx0'', 1730000000000, ''b.hwp'')]) \<and>
   distinct (map id_local (fst (addJobs
      [(1730000000000, ''4fzzzxjyl'', 1730000000000, ''a.hwp''),
       (1730000000000, ''k2m81qpx0'', 1730000000000, ''b.hwp'')] [])))"
proof -
  have h: "distinct (map (\<lambda>(now, rnd, date, fname). (now, rnd))
      [(1730000000000::nat, ''4fzzzxjyl'', 1730000000000::nat, ''a.hwp''),
       (1730000000000, ''k2m81qpx0'', 1730000000000, ''b.hwp'')])"
    by simp
  from addJobs_ids_distinct [OF h, of "[]"] h show ?thesis
    by blast
qed

subsection \<open>Updating a job\<close>

lemma mutate_first_nth:
  "k < length xs \<Longrightarrow> P (xs ! k) \<Longrightarrow> \<forall>m<k. \<not> P (xs ! m) \<Longrightarrow>
   mutate_first P f xs = xs[k := f (xs ! k)]"
proof (induction xs arbitrary: k)
  case Nil
  then show ?case by simp
next
  case (Cons x xs)
  show ?case
  proof (cases k)
    case 0
    with Cons.prems show ?thesis by simp
  next
    case (Suc n)
    with Cons.prems have "\<not> P x" by auto
    moreover from Suc Cons.prems have "mutate_first P f xs = xs[n := f (xs ! n)]"
      by (intro Cons.IH) auto
    ultimately show ?thesis using Suc by simp
  qed
qed

text \<open>
  C6. \<open>updateJobStatus\<close> on an identifier that no job of the store has returns
  \<^verbatim>\<open>null\<close> and leaves the store as it was; it has no path that throws.
\<close>

theorem updateJobStatus_absent:
  assumes "i \<notin> id_local ` set jobs"
  shows "updateJobStatus i st pr serverJobId jobs = (None, jobs)"
proof -
  from assms have "getJob i jobs = None"
    by (auto simp: getJob_def find_None_iff)
  then show ?thesis
    by (simp add: updateJobStatus_def)
qed

theorem updateJobStatus_absent_witness:
  "''temp_0_x'' \<notin> id_local ` set [sample_job] \<and>
   updateJobStatus ''temp_0_x'' (Some ''failed'') (Some 0) None [sample_job]
     = (None, [sample_job])"
proof -
  have h: "''temp_0_x'' \<notin> id_local ` set [sample_job]"
    by (simp add: sample_job_def)
  from updateJobStatus_absent [OF h] h show ?thesis
    by blast
qed

text \<open>
  C7. As stated the claim fails. \<open>updateJobStatus\<close> has no parameter for \<^verbatim>\<open>error\<close> or
  a result reference, and it assigns \<^verbatim>\<open>status\<close> and \<^verbatim>\<open>job_id\<close> only when the value
  given is truthy: a server identifier given as the empty string is not stored.
\<close>

theorem updateJobStatus_keeps_job_id:
  "job_id (the (fst (updateJobStatus ''temp_1730000000000_4fzzzxjyl''
       (Some ''processing'') (Some 30) (Some []) [sample_job]))) \<noteq> Some []"
  by (simp add: updateJobStatus_def getJob_def assign_fields_def truthy_def sample_job_def)

text \<open>
  C7, amended. For the first job of the store that has the identifier,
  \<open>updateJobStatus\<close> is a partial update of \<^verbatim>\<open>status\<close>, \<^verbatim>\<open>progress\<close> and \<^verbatim>\<open>job_id\<close>
  only: \<^verbatim>\<open>status\<close> and \<^verbatim>\<open>job_id\<close> take the value given when it is truthy (a non-empty
  string), \<^verbatim>\<open>progress\<close> takes the value given when it is not \<^verbatim>\<open>undefined\<close>, and
  otherwise the field keeps its value. Every other field of that job (identifier,
  file name, creation time, error, result path and name) and every other job of the
  store is unchanged, and the updated job is returned.
\<close>

theorem updateJobStatus_partial:
  assumes "getJob i jobs = Some j"
  shows "\<exists>k<length jobs. \<exists>j'.
           jobs ! k = j \<and> (\<forall>m<k. id_local (jobs ! m) \<noteq> i) \<and>
           updateJobStatus i st pr serverJobId jobs = (Some j', jobs[k := j']) \<and>
           status j' = (if truthy st then the st else status j) \<and>
           progress j' = (case pr of None \<Rightarrow> progress j | Some p \<Rightarrow> p) \<and>
           job_id j' = (if truthy serverJobId then serverJobId else job_id j) \<and>
           id_local j' = id_local j \<and> filename j' = filename j \<and>
           created_at j' = created_at j \<and> error j' = error j \<and>
           pdf_path j' = pdf_path j \<and> pdf_filename j' = pdf_filename j"
proof -
  from assms obtain k where k: "k < length jobs" "id_local (jobs ! k) = i" "j = jobs ! k"
    "\<forall>m<k. id_local (jobs ! m) \<noteq> i"
    by (auto simp: getJob_def find_Some_iff)
  let ?j' = "assign_fields st pr serverJobId j"
  have "mutate_first (\<lambda>j. id_local j = i) (assign_fields st pr serverJobId) jobs
        = jobs[k := ?j']"
    using k mutate_first_nth [of k jobs "\<lambda>j. id_local j = i" "assign_fields st pr serverJobId"]
    by simp
  with assms have "updateJobStatus i st pr serverJobId jobs = (Some ?j', jobs[k := ?j'])"
    by (simp add: updateJobStatus_def)
  moreover have "status ?j' = (if truthy st then the st else status j)"
    "progress ?j' = (case pr of None \<Rightarrow> progress j | Some p \<Rightarrow> p)"
    "job_id ?j' = (if truthy serverJobId then serverJobId else job_id j)"
    "id_local ?j' = id_local j" "filename ?j' = filename j"
    "created_at ?j' = created_at j" "error ?j' = error j"
    "pdf_path ?j' = pdf_path j" "pdf_filename ?j' = pdf_filename j"
    by (simp_all add: assign_fields_def Let_def split: option.splits)
  ultimately show ?thesis
    using k by (intro exI [of _ k] exI [of _ ?j']) simp
qed

theorem updateJobStatus_partial_witness:
  "getJob ''temp_1730000000000_4fzzzxjyl'' [sample_job] = Some sample_job \<and>
   updateJobStatus ''temp_1730000000000_4fzzzxjyl'' (Some ''completed'') (Some 100) None
       [sample_job]
     = (Some (sample_job\<lparr>status := ''completed'', progress := 100\<rparr>),
        [sample_job\<lparr>status := ''completed'', progress := 100\<rparr>])"
proof -
  have h: "getJob ''temp_1730000000000_4fzzzxjyl'' [sample_job] = Some sample_job"
    by (simp add: getJob_def sample_job_def)
  from updateJobStatus_partial [OF h, of "Some ''completed''" "Some 100" None]
  obtain j' where
    "updateJobStatus ''temp_1730000000000_4fzzzxjyl'' (Some ''completed'') (Some 100) None
       [sample_job] = (Some j', [j'])"
    "status j' = ''completed''" "progress j' = 100" "job_id j' = job_id sample_job"
    "id_local j' = id_local sample_job" "filename j' = filename sample_job"
    "created_at j' = created_at sample_job" "error j' = error sample_job"
    "pdf_path j' = pdf_path sample_job" "pdf_filename j' = pdf_filename sample_job"
    by (auto simp: truthy_def)
  moreover from this have "j' = sample_job\<lparr>status := ''completed'', progress := 100\<rparr>"
    by (cases j') (simp add: sample_job_def)
  ultimately show ?thesis
    using h by simp
qed

subsection \<open>Looking a job up by its server identifier\<close>

lemma addJobs_store: "snd (addJobs cs jobs) = jobs @ fst (addJobs cs jobs)"
proof (induction cs arbitrary: jobs)
  case Nil
  show ?case by simp
next
  case (Cons c cs)
  obtain now rnd date fname where c: "c = (now, rnd, date, fname)"
    by (cases c) auto
  obtain j where a: "addJob now rnd date fname jobs = (j, jobs @ [j])"
    by (simp add: addJob_def Let_def)
  show ?case
    using Cons.IH [of "jobs @ [j]"] by (simp add: c a split_beta)
qed

lemma addJobs_unassigned: "j \<in> set (fst (addJobs cs jobs)) \<Longrightarrow> job_id j = None"
proof (induction cs arbitrary: jobs)
  case Nil
  then show ?case by simp
next
  case (Cons c cs)
  obtain now rnd date fname where c: "c = (now, rnd, date, fname)"
    by (cases c) auto
  obtain x where a: "addJob now rnd date fname jobs = (x, jobs @ [x])" "job_id x = None"
    by (simp add: addJob_def Let_def)
  from Cons.prems have "j = x \<or> j \<in> set (fst (addJobs cs (jobs @ [x])))"
    by (simp add: c a split_beta)
  with a(2) Cons.IH show ?case
    by blast
qed

lemma find_in_append:
  "find P (xs @ ys) = (case find P xs of Some x \<Rightarrow> Some x | None \<Rightarrow> find P ys)"
  by (induction xs) simp_all

text \<open>
  C10. \<open>getJobByServerId\<close> returns the first job, in the order of the array, whose
  \<^verbatim>\<open>job_id\<close> is strictly equal to the value asked for, and \<^verbatim>\<open>undefined\<close> exactly when
  there is none. \<open>addJob\<close> puts the new job at the end of the array, with
  \<^verbatim>\<open>job_id = null\<close>, so the array is in insertion order and asking for \<^verbatim>\<open>null\<close>
  returns the earliest job that has no server identifier: after \<open>addJob\<close> it is the
  job that a \<^verbatim>\<open>null\<close> query found before, or else the new job, and in a store built
  by \<open>addJob\<close> calls alone it is the first job added.
\<close>

theorem getJobByServerId_first:
  "(getJobByServerId q jobs = None \<longleftrightarrow> (\<forall>j\<in>set jobs. job_id j \<noteq> q)) \<and>
   (\<forall>j. getJobByServerId q jobs = Some j \<longleftrightarrow>
      (\<exists>i<length jobs. jobs ! i = j \<and> job_id j = q \<and> (\<forall>k<i. job_id (jobs ! k) \<noteq> q))) \<and>
   snd (addJob now rnd date fname jobs) = jobs @ [fst (addJob now rnd date fname jobs)] \<and>
   job_id (fst (addJob now rnd date fname jobs)) = None \<and>
   getJobByServerId None (snd (addJob now rnd date fname jobs)) \<noteq> None \<and>
   getJobByServerId None (snd (addJob now rnd date fname jobs))
     = (case getJobByServerId None jobs of
          Some j \<Rightarrow> Some j
        | None \<Rightarrow> Some (fst (addJob now rnd date fname jobs))) \<and>
   snd (addJobs cs jobs) = jobs @ fst (addJobs cs jobs) \<and>
   (cs \<noteq> [] \<longrightarrow>
      getJobByServerId None (snd (addJobs cs [])) = Some (hd (fst (addJobs cs []))))"
proof (intro conjI allI impI)
  show "getJobByServerId q jobs = None \<longleftrightarrow> (\<forall>j\<in>set jobs. job_id j \<noteq> q)"
    unfolding getJobByServerId_def find_None_iff by blast
  show "getJobByServerId q jobs = Some j \<longleftrightarrow>
      (\<exists>i<length jobs. jobs ! i = j \<and> job_id j = q \<and> (\<forall>k<i. job_id (jobs ! k) \<noteq> q))" for j
    unfolding getJobByServerId_def find_Some_iff by blast
  obtain x where x: "addJob now rnd date fname jobs = (x, jobs @ [x])" "job_id x = None"
    by (simp add: addJob_def Let_def)
  show "snd (addJob now rnd date fname jobs) = jobs @ [fst (addJob now rnd date fname jobs)]"
    by (simp add: x)
  show "job_id (fst (addJob now rnd date fname jobs)) = None"
    by (simp add: x)
  have f: "find (\<lambda>j. job_id j = None) (jobs @ [x])
           = (case find (\<lambda>j. job_id j = None) jobs of Some j \<Rightarrow> Some j | None \<Rightarrow> Some x)"
    using x(2) by (simp add: find_in_append split: option.splits)
  then show "getJobByServerId None (snd (addJob now rnd date fname jobs))
     = (case getJobByServerId None jobs of
          Some j \<Rightarrow> Some j
        | None \<Rightarrow> Some (fst (addJob now rnd date fname jobs)))"
    by (simp add: getJobByServerId_def x split: option.splits)
  from f show "getJobByServerId None (snd (addJob now rnd date fname jobs)) \<noteq> None"
    by (simp add: getJobByServerId_def x split: option.splits)
  show "snd (addJobs cs jobs) = jobs @ fst (addJobs cs jobs)"
    by (rule addJobs_store)
next
  assume "cs \<noteq> []"
  then obtain j js where js: "fst (addJobs cs []) = j # js"
    by (cases cs) (auto simp: split_beta)
  then have "job_id j = None"
    using addJobs_unassigned [of j cs "[]"] by simp
  moreover have "snd (addJobs cs []) = j # js"
    using addJobs_store [of cs "[]"] js by simp
  ultimately show "getJobByServerId None (snd (addJobs cs [])) = Some (hd (fst (addJobs cs [])))"
    by (simp add: getJobByServerId_def js)
qed

theorem getJobByServerId_first_witness:
  "two_submissions \<noteq> [] \<and>
   map filename (snd (addJobs two_submissions [])) = [''first.hwp'', ''second.hwp''] \<and>
   map_option filename (getJobByServerId None (snd (addJobs two_submissions [])))
     = Some ''first.hwp'' \<and>
   map_option filename (getJobByServerId None
       (snd (updateJobStatus ''temp_1730000000000_4fzzzxjyl'' (Some ''processing'') (Some 30)
               (Some ''J1'') (snd (addJobs two_submissions [])))))
     = Some ''second.hwp'' \<and>
   map_option filename (getJobByServerId (Some ''J1'')
       (snd (updateJobStatus ''temp_1730000000000_4fzzzxjyl'' (Some ''processing'') (Some 30)
               (Some ''J1'') (snd (addJobs two_submissions [])))))
     = Some ''first.hwp''"
proof -
  have h: "two_submissions \<noteq> []"
    by (simp add: two_submissions_def)
  have s: "snd (addJobs two_submissions []) = fst (addJobs two_submissions [])"
    using getJobByServerId_first [of None "[]" 0 "[]" 0 "[]" two_submissions] by simp
  have g: "getJobByServerId None (snd (addJobs two_submissions []))
           = Some (hd (fst (addJobs two_submissions [])))"
    using getJobByServerId_first [of None "[]" 0 "[]" 0 "[]" two_submissions] h by blast
  have e: "fst (addJobs two_submissions []) =
      [fst (addJob 1730000000000 ''4fzzzxjyl'' 1730000000000 ''first.hwp'' []),
       fst (addJob 1730000000001 ''k2m81qpx0'' 1730000000001 ''second.hwp'' [])]"
    by (simp add: two_submissions_def addJob_def Let_def)
  have i: "new_id 1730000000000 ''4fzzzxjyl'' = ''temp_1730000000000_4fzzzxjyl''"
    "new_id 1730000000001 ''k2m81qpx0'' = ''temp_1730000000001_k2m81qpx0''"
    by (simp_all add: new_id_def number_toString.simps digit_char_def)
  show ?thesis
    using h by (simp add: g s e addJob_def i updateJobStatus_def getJob_def getJobByServerId_def
        assign_fields_def truthy_def Let_def)
qed

section \<open>Properties of the upload-and-poll controller\<close>

lemma getJob_Some_first_at:
  "getJob i jobs = Some j \<longleftrightarrow> (\<exists>k. first_at i jobs k \<and> jobs ! k = j)"
  unfolding getJob_def find_Some_iff first_at_def by blast

lemma first_at_getJob: "first_at i jobs k \<Longrightarrow> getJob i jobs = Some (jobs ! k)"
  using getJob_Some_first_at by blast

lemma first_at_update:
  "first_at i jobs k \<Longrightarrow> id_local j' = i \<Longrightarrow> first_at i (jobs[k := j']) k"
  by (simp add: first_at_def)

lemma first_at_mutate:
  "first_at i jobs k \<Longrightarrow> mutate_first (\<lambda>j. id_local j = i) f jobs = jobs[k := f (jobs ! k)]"
  unfolding first_at_def using mutate_first_nth [of k jobs "\<lambda>j. id_local j = i" f] by simp

lemma assign_fields_id [simp]: "id_local (assign_fields st pr sid j) = id_local j"
  by (simp add: assign_fields_def Let_def split: option.splits)

lemma first_at_updateJobStatus:
  assumes "first_at i jobs k"
  shows "snd (updateJobStatus i st pr sid jobs) = jobs[k := assign_fields st pr sid (jobs ! k)]"
  using assms first_at_getJob [OF assms] first_at_mutate [OF assms]
  by (simp add: updateJobStatus_def)

lemma first_at_set_error:
  "first_at i jobs k \<Longrightarrow> set_error i msg jobs = jobs[k := (jobs ! k)\<lparr>error := Some msg\<rparr>]"
  by (simp add: set_error_def first_at_mutate)

lemma first_at_notify:
  "first_at i jobs k \<Longrightarrow> notify i jobs = [UpdateJobElement (jobs ! k)]"
  by (simp add: notify_def first_at_getJob)

lemma assign_status_progress:
  "s \<noteq> [] \<Longrightarrow> assign_fields (Some s) (Some p) None j = j\<lparr>status := s, progress := p\<rparr>"
  by (simp add: assign_fields_def truthy_def)







subsection \<open>Rounding\<close>

lemma ulp64_pos: "0 < ulp64 x"
  by (simp add: ulp64_def)

lemma round_half_even_int: "round_half_even (of_int n) = n"
  by (simp add: round_half_even_def)

lemma round_half_even_le: "y \<le> of_int N \<Longrightarrow> round_half_even y \<le> N"
proof -
  assume a: "y \<le> of_int N"
  then have f: "\<lfloor>y\<rfloor> \<le> N" by (simp add: floor_le_iff)
  show ?thesis
  proof (cases "y = of_int \<lfloor>y\<rfloor>")
    case True
    then have "round_half_even y = \<lfloor>y\<rfloor>"
      by (metis round_half_even_int)
    with f show ?thesis by simp
  next
    case False
    then have "of_int \<lfloor>y\<rfloor> < y"
      using of_int_floor_le [of y] by linarith
    with a have "\<lfloor>y\<rfloor> < N" by linarith
    then show ?thesis
      by (auto simp: round_half_even_def Let_def)
  qed
qed

lemma round_half_even_ge: "of_int N \<le> y \<Longrightarrow> N \<le> round_half_even y"
proof -
  assume "of_int N \<le> y"
  then have "N \<le> \<lfloor>y\<rfloor>" by (simp add: le_floor_iff)
  then show ?thesis
    by (auto simp: round_half_even_def Let_def)
qed

lemma fl64_le:
  assumes "x \<le> c" and "c / ulp64 x \<in> \<int>" and "x \<noteq> 0"
  shows "fl64 x \<le> c"
proof -
  from assms(2) obtain N where N: "c / ulp64 x = of_int N"
    by (auto elim: Ints_cases)
  have "x / ulp64 x \<le> of_int N"
    using assms(1) ulp64_pos [of x] N by (metis divide_right_mono less_eq_real_def)
  then have "round_half_even (x / ulp64 x) \<le> N"
    by (rule round_half_even_le)
  then have "ulp64 x * of_int (round_half_even (x / ulp64 x)) \<le> ulp64 x * of_int N"
    using ulp64_pos [of x] by simp
  also have "\<dots> = c"
    using N ulp64_pos [of x] by (simp add: field_simps)
  finally show ?thesis
    using assms(3) by (simp add: fl64_def)
qed

lemma fl64_ge:
  assumes "c \<le> x" and "c / ulp64 x \<in> \<int>" and "x \<noteq> 0"
  shows "c \<le> fl64 x"
proof -
  from assms(2) obtain N where N: "c / ulp64 x = of_int N"
    by (auto elim: Ints_cases)
  have "of_int N \<le> x / ulp64 x"
    using assms(1) ulp64_pos [of x] N by (metis divide_right_mono less_eq_real_def)
  then have "N \<le> round_half_even (x / ulp64 x)"
    by (rule round_half_even_ge)
  then have "ulp64 x * of_int N \<le> ulp64 x * of_int (round_half_even (x / ulp64 x))"
    using ulp64_pos [of x] by simp
  moreover have "ulp64 x * of_int N = c"
    using N ulp64_pos [of x] by (simp add: field_simps)
  ultimately show ?thesis
    using assms(3) by (simp add: fl64_def)
qed

lemma fl64_exact: "x / ulp64 x \<in> \<int> \<Longrightarrow> fl64 x = x"
proof -
  assume "x / ulp64 x \<in> \<int>"
  then obtain N where N: "x / ulp64 x = of_int N"
    by (auto elim: Ints_cases)
  then have "ulp64 x * of_int (round_half_even (x / ulp64 x)) = ulp64 x * (x / ulp64 x)"
    by (simp only: round_half_even_int)
  also have "\<dots> = x"
    using ulp64_pos [of x] by simp
  finally have "ulp64 x * of_int (round_half_even (x / ulp64 x)) = x" .
  then show ?thesis
    by (simp add: fl64_def)
qed

lemma binade_less:
  assumes "x \<noteq> 0" and "\<bar>x\<bar> < 2 ^ k"
  shows "binade x < int k"
proof -
  have "log 2 \<bar>x\<bar> < log 2 (2 ^ k)"
    using assms by (simp del: log_pow_cancel)
  then have "log 2 \<bar>x\<bar> < real k"
    by simp
  then have "\<lfloor>log 2 \<bar>x\<bar>\<rfloor> < int k"
    by (simp add: floor_less_iff)
  then show ?thesis
    by (simp add: binade_def)
qed

lemma int_over_ulp64:
  assumes "binade x \<le> 52" and "c \<in> \<int>"
  shows "c / ulp64 x \<in> \<int>"
proof -
  define n where "n = nat (52 - binade x)"
  have "of_int (binade x) - 52 = - real n"
    using assms(1) by (simp add: n_def)
  then have "ulp64 x = 2 powr (- real n)"
    by (simp add: ulp64_def)
  also have "\<dots> = inverse (2 ^ n)"
    by (simp add: powr_minus powr_realpow)
  finally have "c / ulp64 x = c * 2 ^ n"
    by (simp add: divide_inverse)
  with assms(2) show ?thesis
    by simp
qed

lemma fl64_range:
  assumes "0 \<le> x" and "x \<le> c" and "c \<in> \<int>" and "c < 2 ^ 53"
  shows "0 \<le> fl64 x \<and> fl64 x \<le> c"
proof (cases "x = 0")
  case True
  with assms show ?thesis by (simp add: fl64_def)
next
  case False
  with assms have "\<bar>x\<bar> < 2 ^ 53" by simp
  from binade_less [OF False this] have b: "binade x \<le> 52" by simp
  have "0 / ulp64 x \<in> \<int>" by simp
  from fl64_ge [OF assms(1) this False]
    fl64_le [OF assms(2) int_over_ulp64 [OF b assms(3)] False]
  show ?thesis by simp
qed

lemma binade_unit:
  assumes "1 \<le> \<bar>x\<bar>"
  shows "binade x = \<lfloor>log 2 \<bar>x\<bar>\<rfloor>" and "0 \<le> binade x"
proof -
  from assms have "0 \<le> log 2 \<bar>x\<bar>" by simp
  then have "0 \<le> \<lfloor>log 2 \<bar>x\<bar>\<rfloor>" by simp
  then show "binade x = \<lfloor>log 2 \<bar>x\<bar>\<rfloor>" and "0 \<le> binade x"
    by (simp_all add: binade_def)
qed

lemma rep64_dyadic:
  assumes "1 \<le> \<bar>x\<bar>" and "\<bar>x\<bar> < 2 ^ 40" and "x * 2 ^ 12 \<in> \<int>"
  shows "rep64 x"
proof -
  have nz: "x \<noteq> 0" using assms(1) by auto
  from binade_less [OF nz assms(2)] binade_unit(2) [OF assms(1)]
  have b: "0 \<le> binade x" "binade x < 40" by simp_all
  define n where "n = nat (40 - binade x)"
  have "of_int (binade x) - 52 = - real (12 + n)"
    using b by (simp add: n_def)
  then have "ulp64 x = 2 powr (- real (12 + n))"
    by (simp add: ulp64_def)
  also have "\<dots> = 1 / 2 ^ (12 + n)"
    by (simp only: powr_minus_divide powr_realpow zero_less_numeral)
  finally have u: "ulp64 x = 1 / 2 ^ (12 + n)" .
  have "x / ulp64 x = x * 2 ^ (12 + n)"
    unfolding u by simp
  also have "\<dots> = (x * 2 ^ 12) * 2 ^ n"
    by (simp only: power_add mult.assoc)
  finally have "x / ulp64 x = (x * 2 ^ 12) * 2 ^ n" .
  with assms(3) show ?thesis
    by (simp add: rep64_def)
qed

lemma fl64_dyadic:
  "1 \<le> \<bar>x\<bar> \<Longrightarrow> \<bar>x\<bar> < 2 ^ 40 \<Longrightarrow> x * 2 ^ 12 \<in> \<int> \<Longrightarrow> fl64 x = x"
  using rep64_dyadic [of x] fl64_exact [of x] by (simp add: rep64_def)

lemma binade_mono:
  assumes "0 < a" and "a \<le> s"
  shows "binade a \<le> binade s"
proof -
  from assms have "log 2 \<bar>a\<bar> \<le> log 2 \<bar>s\<bar>" by simp
  then have "\<lfloor>log 2 \<bar>a\<bar>\<rfloor> \<le> \<lfloor>log 2 \<bar>s\<bar>\<rfloor>" by (rule floor_mono)
  then show ?thesis by (simp add: binade_def)
qed

lemma fl64_add_ge:
  assumes r: "rep64 a" and a: "0 \<le> a" and d: "0 \<le> d"
  shows "a \<le> fl64 (a + d)"
proof (cases "a = 0")
  case True
  show ?thesis
  proof (cases "d = 0")
    case True
    with \<open>a = 0\<close> show ?thesis by (simp add: fl64_def)
  next
    case False
    have "0 / ulp64 (a + d) \<in> \<int>" by simp
    from fl64_ge [OF _ this, of ] False d True show ?thesis by simp
  qed
next
  case False
  with a have ap: "0 < a" by simp
  let ?s = "a + d"
  have sp: "0 < ?s" and nz: "?s \<noteq> 0" and le: "a \<le> ?s"
    using ap d by simp_all
  from binade_mono [OF ap le] consider (same) "binade a = binade ?s" | (up) "binade a < binade ?s"
    by linarith
  then show ?thesis
  proof cases
    case same
    then have "ulp64 ?s = ulp64 a" by (simp add: ulp64_def)
    with r have "a / ulp64 ?s \<in> \<int>" by (simp add: rep64_def)
    from fl64_ge [OF le this nz] show ?thesis .
  next
    case up
    define e where "e = \<lfloor>log 2 \<bar>?s\<bar>\<rfloor>"
    have "- 1022 \<le> binade a" by (simp add: binade_def)
    with up have big: "- 1022 < binade ?s" by simp
    then have bs: "binade ?s = e"
      by (auto simp: binade_def e_def max_def split: if_splits)
    have "\<lfloor>log 2 \<bar>a\<bar>\<rfloor> \<le> binade a" by (simp add: binade_def)
    with up bs have lt: "\<lfloor>log 2 a\<rfloor> < e" using ap by simp
    define c :: real where "c = 2 powr of_int e"
    have "of_int e \<le> log 2 ?s"
      using sp by (simp add: e_def)
    then have cs: "c \<le> ?s"
      using sp by (simp add: c_def le_log_iff)
    have "log 2 a < of_int (\<lfloor>log 2 a\<rfloor> + 1)"
      by linarith
    also have "\<dots> \<le> of_int e"
      using lt by simp
    finally have "log 2 a < of_int e" .
    then have ac: "a < c"
      using ap by (simp add: c_def log_less_iff)
    have "c / ulp64 ?s = 2 powr 52"
      by (simp add: c_def ulp64_def bs powr_diff)
    also have "\<dots> = 2 ^ 52"
      by simp
    finally have "c / ulp64 ?s \<in> \<int>"
      by simp
    from fl64_ge [OF cs this nz] ac show ?thesis by simp
  qed
qed

subsection \<open>Synthetic progress\<close>

lemma increment_range:
  assumes "0 \<le> rand" and "rand < 1"
  shows "0 \<le> fl64 (rand * 5) \<and> fl64 (rand * 5) \<le> 5"
  using assms by (intro fl64_range) simp_all

text \<open>
  C1, amended. A poll tick whose query reports a status other than \<^verbatim>\<open>completed\<close> and
  \<^verbatim>\<open>failed\<close>, for a job still in the store, sets the status to \<^verbatim>\<open>processing\<close> and
  schedules the next tick. When the progress was below 90 it becomes the rounded sum of
  the progress and the rounded product \<open>rand * 5\<close>; otherwise it stays as it was. So a
  tick keeps a progress that was between 0 and 90 between 0 and 95 (at most 95, not
  below 90), never lowers a progress that is a non-negative binary64 value, and never
  changes a progress of 90 or more.
\<close>

theorem poll_progress_step:
  assumes "getJob localId jobs = Some j"
    and "data_status d \<noteq> ''completed''" and "data_status d \<noteq> ''failed''"
    and "0 \<le> rand" and "rand < 1"
  shows "\<exists>k<length jobs. \<exists>p. jobs ! k = j \<and> (\<forall>m<k. id_local (jobs ! m) \<noteq> localId) \<and>
           pollStatus_resume localId serverJobId (Response d) rand jobs =
             \<lparr> store = jobs[k := j\<lparr>status := ''processing'', progress := p\<rparr>],
               emitted = [UpdateJobElement (j\<lparr>status := ''processing'', progress := p\<rparr>)],
               spawned = Some (Timer localId serverJobId POLL_INTERVAL), thrown = None \<rparr> \<and>
           p = (if progress j < 90 then fl64 (progress j + fl64 (rand * 5))
                else progress j) \<and>
           (0 \<le> progress j \<and> progress j < 90 \<longrightarrow> 0 \<le> p \<and> p \<le> 95) \<and>
           (0 \<le> progress j \<and> rep64 (progress j) \<longrightarrow> progress j \<le> p) \<and>
           (90 \<le> progress j \<longrightarrow> p = progress j)"
proof -
  from assms(1) obtain k where k: "first_at localId jobs k" "jobs ! k = j"
    using getJob_Some_first_at by blast
  have len: "k < length jobs"
    using k by (simp add: first_at_def)
  define inc where "inc = fl64 (rand * 5)"
  define p where "p = (if progress j < 90 then fl64 (progress j + inc) else progress j)"
  let ?f = "j\<lparr>status := ''processing'', progress := p\<rparr>"
  have u: "snd (updateJobStatus localId (Some ''processing'') (Some q) None jobs)
           = jobs[k := j\<lparr>status := ''processing'', progress := q\<rparr>]" for q
    using first_at_updateJobStatus [OF k(1)] k(2) by (simp add: assign_status_progress)
  have n: "notify localId (jobs[k := j\<lparr>status := ''processing'', progress := q\<rparr>])
           = [UpdateJobElement (j\<lparr>status := ''processing'', progress := q\<rparr>)]" for q
  proof -
    have "first_at localId (jobs[k := j\<lparr>status := ''processing'', progress := q\<rparr>]) k"
      using k by (intro first_at_update) (auto simp: first_at_def)
    from first_at_notify [OF this] len show ?thesis by simp
  qed
  have r: "pollStatus_resume localId serverJobId (Response d) rand jobs =
          \<lparr> store = jobs[k := ?f], emitted = [UpdateJobElement ?f],
            spawned = Some (Timer localId serverJobId POLL_INTERVAL), thrown = None \<rparr>"
    using assms(1-3)
    by (simp add: pollStatus_resume_def Let_def u n p_def inc_def)
  have inc: "0 \<le> inc" "inc \<le> 5"
    using increment_range [OF assms(4,5)] by (simp_all add: inc_def)
  have b1: "0 \<le> p \<and> p \<le> 95" if "0 \<le> progress j \<and> progress j < 90"
  proof -
    from that inc have "0 \<le> progress j + inc" "progress j + inc \<le> 95"
      by simp_all
    then have "0 \<le> fl64 (progress j + inc) \<and> fl64 (progress j + inc) \<le> 95"
      by (intro fl64_range) simp_all
    with that show ?thesis
      by (simp add: p_def)
  qed
  have b2: "progress j \<le> p" if "0 \<le> progress j \<and> rep64 (progress j)"
  proof (cases "progress j < 90")
    case True
    from that inc(1) have "progress j \<le> fl64 (progress j + inc)"
      by (intro fl64_add_ge) simp_all
    with True show ?thesis
      by (simp add: p_def)
  next
    case False
    then show ?thesis
      by (simp add: p_def)
  qed
  have b3: "90 \<le> progress j \<longrightarrow> p = progress j"
    by (simp add: p_def)
  have pe: "p = (if progress j < 90 then fl64 (progress j + fl64 (rand * 5))
                else progress j)"
    by (simp add: p_def inc_def)
  from k len r b1 b2 b3 pe show ?thesis
    unfolding first_at_def by blast
qed

lemma fl64_eighths:
  "1 \<le> x \<Longrightarrow> x < 100 \<Longrightarrow> x * 8 \<in> \<int> \<Longrightarrow> fl64 x = x"
proof -
  assume a: "1 \<le> x" "x < 100" "x * 8 \<in> \<int>"
  have "x * 2 ^ 12 = (x * 8) * 512"
    by simp
  with a(3) have "x * 2 ^ 12 \<in> \<int>"
    by (simp only: Ints_mult Ints_numeral)
  moreover have "\<bar>x\<bar> < 2 ^ 40"
    using a by simp
  ultimately show ?thesis
    using a(1) by (intro fl64_dyadic) simp_all
qed

lemma increment_sample: "fl64 (35 / 8) = 35 / 8"
  by (rule fl64_eighths) simp_all

theorem poll_progress_step_witness:
  "getJob ''temp_1730000000000_4fzzzxjyl'' [sample_job] = Some sample_job \<and>
   data_status \<lparr>data_status = ''processing'', data_error = None\<rparr> \<noteq> ''completed'' \<and>
   data_status \<lparr>data_status = ''processing'', data_error = None\<rparr> \<noteq> ''failed'' \<and>
   (0::real) \<le> 7/8 \<and> (7/8::real) < 1 \<and>
   0 \<le> progress sample_job \<and> progress sample_job < 90 \<and> rep64 (progress sample_job) \<and>
   pollStatus_resume ''temp_1730000000000_4fzzzxjyl'' (Some ''J1'')
      (Response \<lparr>data_status = ''processing'', data_error = None\<rparr>) (7/8) [sample_job]
   = \<lparr> store = [sample_job\<lparr>status := ''processing'', progress := 275/8\<rparr>],
       emitted = [UpdateJobElement (sample_job\<lparr>status := ''processing'', progress := 275/8\<rparr>)],
       spawned = Some (Timer ''temp_1730000000000_4fzzzxjyl'' (Some ''J1'') POLL_INTERVAL),
       thrown = None \<rparr>"
proof -
  have h: "getJob ''temp_1730000000000_4fzzzxjyl'' [sample_job] = Some sample_job"
    "data_status \<lparr>data_status = ''processing'', data_error = None\<rparr> \<noteq> ''completed''"
    "data_status \<lparr>data_status = ''processing'', data_error = None\<rparr> \<noteq> ''failed''"
    "(0::real) \<le> 7/8" "(7/8::real) < 1"
    by (simp_all add: getJob_def sample_job_def)
  have p: "progress sample_job = 30"
    by (simp add: sample_job_def)
  have "rep64 30"
    by (rule rep64_dyadic) simp_all
  then have q: "rep64 (progress sample_job)"
    by (simp only: p)
  have "fl64 (30 + 35 / 8) = 275 / 8"
    using fl64_eighths [of "275 / 8"] by simp
  then have s: "fl64 (30 + fl64 (35 / 8)) = 275 / 8"
    by (simp only: increment_sample)
  from poll_progress_step [OF h, of "Some ''J1''"] h q show ?thesis
    by (auto simp: p s)
qed

text \<open>
  C1. As stated (the increment leaves the progress strictly below 90) the claim fails:
  a job that entered \<^verbatim>\<open>processing\<close> at 30 and is polled fourteen times, with
  \<^verbatim>\<open>Math.random()\<close> returning 0.875 each time, is still \<^verbatim>\<open>processing\<close> and has
  progress 91.25. Every number on the way is a multiple of one eighth, so no sum is
  rounded.
\<close>

lemma tick_sample:
  assumes "1 \<le> p" and "p < 90" and "p * 8 \<in> \<int>"
  shows "store (pollStatus_resume ''temp_1730000000000_4fzzzxjyl'' (Some ''J1'')
      (Response \<lparr>data_status = ''processing'', data_error = None\<rparr>) (7/8)
      [sample_job\<lparr>progress := p\<rparr>]) = [sample_job\<lparr>progress := p + 35/8\<rparr>]"
proof -
  have "(p + 35 / 8) * 8 = p * 8 + 35"
    by simp
  with assms(3) have "(p + 35 / 8) * 8 \<in> \<int>"
    by (simp only: Ints_add Ints_numeral)
  with assms(1,2) have "fl64 (p + 35 / 8) = p + 35 / 8"
    by (intro fl64_eighths) simp_all
  with assms(2) show ?thesis
    by (simp add: pollStatus_resume_def getJob_def updateJobStatus_def
        assign_fields_def truthy_def sample_job_def Let_def increment_sample)
qed

theorem poll_progress_reaches_90:
  "status (hd (poll_ticks 14 ''temp_1730000000000_4fzzzxjyl'' (Some ''J1'')
      (Response \<lparr>data_status = ''processing'', data_error = None\<rparr>) (7/8) [sample_job]))
     = ''processing'' \<and>
   90 \<le> progress (hd (poll_ticks 14 ''temp_1730000000000_4fzzzxjyl'' (Some ''J1'')
      (Response \<lparr>data_status = ''processing'', data_error = None\<rparr>) (7/8) [sample_job]))"
proof -
  have s: "sample_job = sample_job\<lparr>progress := 30\<rparr>"
    by (simp add: sample_job_def)
  have "poll_ticks 14 ''temp_1730000000000_4fzzzxjyl'' (Some ''J1'')
      (Response \<lparr>data_status = ''processing'', data_error = None\<rparr>) (7/8)
      [sample_job\<lparr>progress := 30\<rparr>] = [sample_job\<lparr>progress := 365/4\<rparr>]"
    by (simp add: eval_nat_numeral tick_sample)
  then show ?thesis
    by (simp add: s [symmetric] sample_job_def)
qed

section \<open>Properties of file validation\<close>

lemma split_on_nonempty: "split_on c s \<noteq> []"
  by (induction s) (auto split: list.splits)

lemmas string_eval = toLowerCase_def toLowerCase_char_def pop_def

text \<open>
  C8, amended. The extension of a name is the text after its last \<open>.\<close> (the whole name
  when it has none), in lower case. In the upload controller a file whose extension is
  not one of hwp, hwpx, odt, docx, or whose size is above 50 MiB, is answered with an
  alert and nothing else: the store is unchanged and no upload is started. In the
  local-conversion controller a path whose file name has an extension other than hwp
  and hwpx is answered the same way; that controller receives a path and checks no size.
\<close>

theorem rejected_file_creates_no_job:
  "(toLowerCase (pop (split_on CHR ''.'' (file_name f)))
        \<notin> set [''hwp'', ''hwpx'', ''odt'', ''docx''] \<or> MAX_FILE_SIZE < file_size f
    \<longrightarrow> store (processFile_start f now rnd date jobs) = jobs \<and>
        (\<exists>msg. emitted (processFile_start f now rnd date jobs) = [Alert msg]) \<and>
        spawned (processFile_start f now rnd date jobs) = None \<and>
        thrown (processFile_start f now rnd date jobs) = None) \<and>
   (toLowerCase (pop (split_on CHR ''.''
        (pop (split_on CHR ''/'' (pop (split_on (CHR 0x5C) filePath))))))
        \<notin> set [''hwp'', ''hwpx'']
    \<longrightarrow> store (ui_processFile_start filePath now rnd date jobs) = jobs \<and>
        (\<exists>n. emitted (ui_processFile_start filePath now rnd date jobs) = [AlertLocalized n]) \<and>
        spawned (ui_processFile_start filePath now rnd date jobs) = None \<and>
        thrown (ui_processFile_start filePath now rnd date jobs) = None)"
  by (simp add: processFile_start_def ui_processFile_start_def Let_def)

theorem rejected_file_creates_no_job_witness:
  "toLowerCase (pop (split_on CHR ''.'' (file_name archive_zip)))
        \<notin> set [''hwp'', ''hwpx'', ''odt'', ''docx''] \<and>
   store (processFile_start archive_zip 1 ''r'' 2 [sample_job]) = [sample_job] \<and>
   MAX_FILE_SIZE < file_size doc_odt \<and>
   store (processFile_start doc_odt 1 ''r'' 2 [sample_job]) = [sample_job] \<and>
   toLowerCase (pop (split_on CHR ''.''
        (pop (split_on CHR ''/'' (pop (split_on (CHR 0x5C) ''C:/docs/doc.odt''))))))
        \<notin> set [''hwp'', ''hwpx''] \<and>
   store (ui_processFile_start ''C:/docs/doc.odt'' 1 ''r'' 2 [sample_job]) = [sample_job]"
proof -
  have h1: "toLowerCase (pop (split_on CHR ''.'' (file_name archive_zip)))
        \<notin> set [''hwp'', ''hwpx'', ''odt'', ''docx'']"
    by (simp add: string_eval archive_zip_def)
  have h2: "MAX_FILE_SIZE < file_size doc_odt"
    by (simp add: MAX_FILE_SIZE_def doc_odt_def)
  have h3: "toLowerCase (pop (split_on CHR ''.''
        (pop (split_on CHR ''/'' (pop (split_on (CHR 0x5C) ''C:/docs/doc.odt''))))))
        \<notin> set [''hwp'', ''hwpx'']"
    by (simp add: string_eval)
  from rejected_file_creates_no_job [of archive_zip 1 "''r''" 2 "[sample_job]" "''C:/docs/doc.odt''"]
    rejected_file_creates_no_job [of doc_odt 1 "''r''" 2 "[sample_job]" "''C:/docs/doc.odt''"]
    h1 h2 h3
  show ?thesis
    by blast
qed

text \<open>
  C8. As stated (every file above the maximum size is rejected and gets no job) the
  claim fails in the local-conversion controller: a 55 MiB file named \<^verbatim>\<open>big.hwp\<close> is
  given a job.
\<close>

theorem oversize_file_accepted_locally:
  "MAX_FILE_SIZE < file_size big_hwp \<and>
   length (store (ui_processFile_start (file_name big_hwp) 1 ''r'' 2 [])) = 1"
  by (simp add: MAX_FILE_SIZE_def big_hwp_def ui_processFile_start_def string_eval
      addJob_def updateJobStatus_def getJob_def Let_def)

section \<open>Properties of the local-conversion controller\<close>

lemma getJob_append_fresh:
  "i \<notin> id_local ` set jobs \<Longrightarrow> id_local j = i \<Longrightarrow> first_at i (jobs @ [j]) (length jobs)"
  unfolding first_at_def by (auto simp: nth_append) (metis imageI nth_mem)

lemma addJob_eq:
  "addJob now rnd date fname jobs =
     (fst (addJob now rnd date fname jobs), jobs @ [fst (addJob now rnd date fname jobs)])"
  by (simp add: addJob_def Let_def)

lemma addJob_fields:
  "status (fst (addJob now rnd date fname jobs)) = ''pending''"
  "progress (fst (addJob now rnd date fname jobs)) = 0"
  "job_id (fst (addJob now rnd date fname jobs)) = None"
  "filename (fst (addJob now rnd date fname jobs)) = fname"
  "error (fst (addJob now rnd date fname jobs)) = None"
  by (simp_all add: addJob_def Let_def)







section \<open>The life cycle of a job in the upload-and-poll controller\<close>

lemma rank_simps [simp]:
  "status_rank ''pending'' = 0" "status_rank ''uploading'' = 1"
  "status_rank ''processing'' = 2" "status_rank ''completed'' = 3"
  "status_rank ''failed'' = 3"
  by (simp_all add: status_rank_def)

lemma known_simps [simp]:
  "known_status ''uploading''" "known_status ''processing''"
  "known_status ''completed''" "known_status ''failed''"
  by (simp_all add: known_status_def)

lemma rank_le_3 [simp]: "status_rank st \<le> 3"
  by (simp add: status_rank_def)

lemma first_at_unique: "first_at i jobs k \<Longrightarrow> first_at i jobs m \<Longrightarrow> k = m"
  unfolding first_at_def by (metis linorder_neqE_nat)

lemma catch_moves:
  assumes "first_at i jobs k"
  shows "moves_job i ph jobs (processFile_catch i msg jobs)"
proof -
  have len: "k < length jobs"
    using assms by (simp add: first_at_def)
  let ?f = "(jobs ! k)\<lparr>status := ''failed'', progress := 0\<rparr>"
  have u: "snd (updateJobStatus i (Some ''failed'') (Some 0) None jobs) = jobs[k := ?f]"
    using first_at_updateJobStatus [OF assms] by (simp add: assign_status_progress)
  have k1: "first_at i (jobs[k := ?f]) k"
    using assms by (intro first_at_update) (auto simp: first_at_def)
  have g: "getJob i (jobs[k := ?f]) = Some ?f"
    using first_at_getJob [OF k1] len by simp
  let ?e = "?f\<lparr>error := Some msg\<rparr>"
  have e: "set_error i msg (jobs[k := ?f]) = jobs[k := ?e]"
    using first_at_set_error [OF k1] len by simp
  have "processFile_catch i msg jobs =
          \<lparr> store = jobs[k := ?e], emitted = ConsoleError msg # notify i (jobs[k := ?e]),
            spawned = None, thrown = None \<rparr>"
    by (simp add: processFile_catch_def Let_def u g e)
  moreover have "id_local ?e = i"
    using assms by (simp add: first_at_def)
  moreover have "\<forall>l sid. CheckStatus l sid \<notin> set (ConsoleError msg # notify i (jobs[k := ?e]))"
    "\<forall>j. CreateJobElement j \<notin> set (ConsoleError msg # notify i (jobs[k := ?e]))"
    by (simp_all add: notify_def split: option.splits)
  ultimately show ?thesis
    unfolding moves_job_def using assms
    by (intro exI [of _ k] exI [of _ ?e]) simp
qed

lemma upload_settles_moves:
  assumes "first_at i jobs k"
  shows "moves_job i ''uploading'' jobs (processFile_resume i up jobs)"
proof (cases up)
  case (Rejected msg)
  then show ?thesis
    using catch_moves [OF assms] by (simp add: processFile_resume_def)
next
  case (Accepted sid)
  have len: "k < length jobs"
    using assms by (simp add: first_at_def)
  let ?f = "assign_fields (Some ''processing'') (Some 30) sid (jobs ! k)"
  have st: "status ?f = ''processing''"
    by (simp add: assign_fields_def truthy_def Let_def)
  have u: "snd (updateJobStatus i (Some ''processing'') (Some 30) sid jobs) = jobs[k := ?f]"
    using first_at_updateJobStatus [OF assms] by simp
  have k1: "first_at i (jobs[k := ?f]) k"
    using assms by (intro first_at_update) (auto simp: first_at_def)
  have g: "getJob i (jobs[k := ?f]) = Some ?f"
    using first_at_getJob [OF k1] len by simp
  have "processFile_resume i up jobs =
          \<lparr> store = jobs[k := ?f], emitted = [UpdateJobElement ?f, CheckStatus i sid],
            spawned = Some (AwaitStatus i sid), thrown = None \<rparr>"
    using Accepted by (simp add: processFile_resume_def pollStatus_start_def Let_def u g)
  moreover have "id_local ?f = i"
    using assms by (simp add: first_at_def)
  ultimately show ?thesis
    unfolding moves_job_def using assms st
    by (intro exI [of _ k] exI [of _ ?f]) simp
qed

lemma timer_moves:
  assumes "first_at i jobs k" and "status (jobs ! k) = ''processing''"
  shows "moves_job i ''processing'' jobs (pollStatus_start i sid jobs)"
  unfolding moves_job_def using assms
  by (intro exI [of _ k] exI [of _ "jobs ! k"])
     (simp add: pollStatus_start_def first_at_def)


lemma status_settles_moves:
  assumes "first_at i jobs k"
  shows "moves_job i ''processing'' jobs (pollStatus_resume i sid res rand jobs)"
proof -
  have len: "k < length jobs" and idk: "id_local (jobs ! k) = i"
    using assms by (simp_all add: first_at_def)
  have g0: "getJob i jobs = Some (jobs ! k)"
    using first_at_getJob [OF assms] .
  have upd: "snd (updateJobStatus i (Some s) (Some p) None (jobs[k := x]))
               = jobs[k := x\<lparr>status := s, progress := p\<rparr>]"
    if "id_local x = i" "s \<noteq> []" for x s p
  proof -
    have "first_at i (jobs[k := x]) k"
      using assms that(1) by (intro first_at_update)
    from first_at_updateJobStatus [OF this] len that(2) show ?thesis
      by (simp add: assign_status_progress)
  qed
  have upd0: "snd (updateJobStatus i (Some s) (Some p) None jobs)
               = jobs[k := (jobs ! k)\<lparr>status := s, progress := p\<rparr>]"
    if "s \<noteq> []" for s p
    using upd [of "jobs ! k" s p] idk that by simp
  have err: "set_error i msg jobs = jobs[k := (jobs ! k)\<lparr>error := Some msg\<rparr>]" for msg
    using first_at_set_error [OF assms] .
  have nt: "\<forall>l sid. CheckStatus l sid \<notin> set (notify i js)"
    "\<forall>j. CreateJobElement j \<notin> set (notify i js)" for js
    by (simp_all add: notify_def split: option.splits)
  show ?thesis
  proof (cases res)
    case QueryError
    let ?f = "(jobs ! k)\<lparr>error := Some ''Network error during polling'',
                           status := ''failed'', progress := 0\<rparr>"
    have "pollStatus_resume i sid res rand jobs =
            \<lparr> store = jobs[k := ?f], emitted = notify i (jobs[k := ?f]),
              spawned = None, thrown = None \<rparr>"
      using QueryError idk by (simp add: pollStatus_resume_def g0 Let_def err upd)
    then show ?thesis
      unfolding moves_job_def using assms idk nt
      by (intro exI [of _ k] exI [of _ ?f]) simp
  next
    case (Response d)
    consider (completed) "data_status d = ''completed''"
      | (failed) "data_status d = ''failed''"
      | (other) "data_status d \<noteq> ''completed''" "data_status d \<noteq> ''failed''"
      by blast
    then show ?thesis
    proof cases
      case completed
      let ?f = "(jobs ! k)\<lparr>status := ''completed'', progress := 100\<rparr>"
      have "pollStatus_resume i sid res rand jobs =
              \<lparr> store = jobs[k := ?f], emitted = notify i (jobs[k := ?f]),
                spawned = None, thrown = None \<rparr>"
        using Response completed by (simp add: pollStatus_resume_def g0 Let_def upd0)
      then show ?thesis
        unfolding moves_job_def using assms idk nt
        by (intro exI [of _ k] exI [of _ ?f]) simp
    next
      case failed
      define msg where "msg = (if truthy (data_error d) then the (data_error d)
                               else ''Failed on server'')"
      let ?f = "(jobs ! k)\<lparr>error := Some msg, status := ''failed'', progress := 0\<rparr>"
      have "pollStatus_resume i sid res rand jobs =
              \<lparr> store = jobs[k := ?f], emitted = notify i (jobs[k := ?f]),
                spawned = None, thrown = None \<rparr>"
        using Response failed idk
        by (simp add: pollStatus_resume_def g0 Let_def msg_def [symmetric] err upd)
      then show ?thesis
        unfolding moves_job_def using assms idk nt
        by (intro exI [of _ k] exI [of _ ?f]) simp
    next
      case other
      define p where "p = (if progress (jobs ! k) < 90
                           then fl64 (progress (jobs ! k) + fl64 (rand * 5))
                           else progress (jobs ! k))"
      let ?f = "(jobs ! k)\<lparr>status := ''processing'', progress := p\<rparr>"
      have "pollStatus_resume i sid res rand jobs =
              \<lparr> store = jobs[k := ?f], emitted = notify i (jobs[k := ?f]),
                spawned = Some (Timer i sid POLL_INTERVAL), thrown = None \<rparr>"
        using Response other
        by (simp add: pollStatus_resume_def g0 Let_def p_def [symmetric] upd0)
      then show ?thesis
        unfolding moves_job_def using assms idk nt
        by (intro exI [of _ k] exI [of _ ?f]) simp
    qed
  qed
qed


lemma distinct_first_at:
  "distinct (map id_local jobs) \<Longrightarrow> k < length jobs \<Longrightarrow> first_at (id_local (jobs ! k)) jobs k"
  unfolding first_at_def distinct_conv_nth by (auto simp: less_imp_neq)

lemma task_phase_not_terminal [simp]: "\<not> terminal (task_phase t)"
  by (cases t) (simp_all add: terminal_def)

lemma distinct_map_remove1:
  assumes "distinct (map f xs)"
  shows "distinct (map f (remove1 x xs))" and "x \<in> set xs \<Longrightarrow> f x \<notin> f ` set (remove1 x xs)"
proof -
  from assms have d: "distinct xs" and i: "inj_on f (set xs)"
    by (simp_all add: distinct_map)
  have sub: "set (remove1 x xs) \<subseteq> set xs"
    by (rule set_remove1_subset)
  show "distinct (map f (remove1 x xs))"
    using d i sub by (simp add: distinct_map inj_on_subset)
  show "f x \<notin> f ` set (remove1 x xs)" if "x \<in> set xs"
  proof
    assume "f x \<in> f ` set (remove1 x xs)"
    then obtain y where y: "y \<in> set (remove1 x xs)" "f y = f x"
      by auto
    with sub that i have "y = x"
      by (auto dest: inj_onD)
    with y(1) d show False
      by simp
  qed
qed

lemma resume_consistent:
  assumes c: "consistent s" and d: "distinct (map id_local (sys_store s))"
    and t: "t \<in> set (sys_tasks s)"
    and m: "\<And>k. first_at (task_owner t) (sys_store s) k \<Longrightarrow>
                 status (sys_store s ! k) = task_phase t \<Longrightarrow>
                 moves_job (task_owner t) (task_phase t) (sys_store s) (code (sys_store s))"
  shows "\<exists>s'. resume_task t s code = Some s' \<and> consistent s' \<and> advances s s'"
proof -
  let ?jobs = "sys_store s"
  let ?r = "code ?jobs"
  let ?i = "task_owner t"
  from c t obtain j where j: "j \<in> set ?jobs" "id_local j = ?i" "status j = task_phase t"
    unfolding consistent_def by blast
  then obtain k where k: "k < length ?jobs" "?jobs ! k = j"
    by (auto simp: in_set_conv_nth)
  have fk: "first_at ?i ?jobs k"
    using distinct_first_at [OF d k(1)] k(2) j(2) by simp
  from m [OF fk] k j obtain k' j' where
    mv: "first_at ?i ?jobs k'" "store ?r = ?jobs[k' := j']" "id_local j' = ?i"
      "known_status (status j')" "status_rank (task_phase t) \<le> status_rank (status j')"
      "case spawned ?r of None \<Rightarrow> True
         | Some t' \<Rightarrow> task_owner t' = ?i \<and> task_phase t' = status j'"
      "\<forall>l sid. CheckStatus l sid \<in> set (emitted ?r) \<longrightarrow> l = ?i"
      "\<forall>j. CreateJobElement j \<notin> set (emitted ?r)"
    unfolding moves_job_def by auto
  have kk: "k' = k"
    using first_at_unique [OF mv(1) fk] .
  note mv = mv [unfolded kk]
  define rest where "rest = remove1 t (sys_tasks s)"
  define new where "new = (case spawned ?r of None \<Rightarrow> [] | Some t' \<Rightarrow> [t'])"
  define es where "es = emitted ?r @ (case thrown ?r of None \<Rightarrow> [] | Some e \<Rightarrow> [Uncaught e])"
  define s' where "s' = \<lparr> sys_store = ?jobs[k := j'], sys_tasks = rest @ new,
                          sys_trace = sys_trace s @ es \<rparr>"
  have res: "resume_task t s code = Some s'"
    using t by (simp add: resume_task_def absorb_def s'_def rest_def new_def es_def mv(2))
  have owners: "distinct (map task_owner (sys_tasks s))"
    using c by (simp add: consistent_def)
  have rest_d: "distinct (map task_owner rest)" and rest_i: "?i \<notin> task_owner ` set rest"
    using distinct_map_remove1 [OF owners, of t] t by (simp_all add: rest_def)
  have new_o: "\<forall>t'\<in>set new. task_owner t' = ?i \<and> task_phase t' = status j'"
    and new_l: "length new \<le> 1"
    using mv(6) by (simp_all add: new_def split: option.splits)
  have other: "?jobs[k := j'] ! n = ?jobs ! n" if "n \<noteq> k" for n
    using that by simp
  have ids: "id_local (?jobs ! n) \<noteq> ?i" if "n < length ?jobs" "n \<noteq> k" for n
  proof -
    have "map id_local ?jobs ! n \<noteq> map id_local ?jobs ! k"
      using nth_eq_iff_index_eq [OF d, of n k] that k(1) by simp
    with that k j(2) show ?thesis by simp
  qed
  have c1: "distinct (map task_owner (rest @ new))"
  proof (cases new)
    case Nil
    then show ?thesis using rest_d by simp
  next
    case (Cons a as)
    with new_l have "new = [a]" by simp
    then show ?thesis using rest_d rest_i new_o by auto
  qed
  have c2: "\<exists>x\<in>set (?jobs[k := j']). id_local x = task_owner u \<and> status x = task_phase u"
    if u: "u \<in> set (rest @ new)" for u
  proof (cases "u \<in> set new")
    case True
    with new_o mv(3) have "id_local j' = task_owner u \<and> status j' = task_phase u"
      by simp
    moreover have "j' \<in> set (?jobs[k := j'])"
      using k(1) by (simp add: set_update_memI)
    ultimately show ?thesis by blast
  next
    case False
    with u have ur: "u \<in> set rest" by simp
    then have "u \<in> set (sys_tasks s)"
      unfolding rest_def using set_remove1_subset [of t "sys_tasks s"] by blast
    with c obtain x where x: "x \<in> set ?jobs" "id_local x = task_owner u" "status x = task_phase u"
      unfolding consistent_def by blast
    then obtain n where n: "n < length ?jobs" "?jobs ! n = x"
      by (auto simp: in_set_conv_nth)
    have "task_owner u \<noteq> ?i"
      using ur rest_i by (metis imageI)
    with n x(2) k j(2) have "n \<noteq> k" by auto
    with n have "?jobs[k := j'] ! n = x" "n < length (?jobs[k := j'])"
      by simp_all
    then have "x \<in> set (?jobs[k := j'])"
      by (metis nth_mem)
    with x show ?thesis by blast
  qed
  have c3: "known_status (status x)" if "x \<in> set (?jobs[k := j'])" for x
  proof -
    from that have "x = j' \<or> x \<in> set ?jobs"
      using set_update_subset_insert [of ?jobs k j'] by auto
    with mv(4) c show ?thesis
      unfolding consistent_def by blast
  qed
  have cons: "consistent s'"
    unfolding consistent_def s'_def using c1 c2 c3 by simp
  have q: "CheckStatus l sid \<in> set es \<Longrightarrow> l = ?i" for l sid
    using mv(7) by (auto simp: es_def split: option.splits)
  have q2: "\<forall>x. CreateJobElement x \<in> set es \<longrightarrow> status x = ''pending''"
    using mv(8) by (auto simp: es_def split: option.splits)
  have per: "id_local (sys_store s' ! n) = id_local (?jobs ! n) \<and>
       status_rank (status (?jobs ! n)) \<le> status_rank (status (sys_store s' ! n)) \<and>
       (terminal (status (?jobs ! n)) \<longrightarrow>
          sys_store s' ! n = ?jobs ! n \<and>
          (\<forall>sid. CheckStatus (id_local (?jobs ! n)) sid \<notin> set es))"
    if n: "n < length ?jobs" for n
  proof (cases "n = k")
    case True
    have "\<not> terminal (status (?jobs ! k))"
      using k(2) j(3) by simp
    then show ?thesis
      using True n mv(3,5) k j by (simp add: s'_def)
  next
    case False
    have "\<forall>sid. CheckStatus (id_local (?jobs ! n)) sid \<notin> set es"
      using q ids [OF n False] by blast
    then show ?thesis
      using False by (simp add: s'_def)
  qed
  have adv: "advances s s'"
    unfolding advances_def
  proof (intro exI [of _ es] conjI)
    show "sys_trace s' = sys_trace s @ es"
      by (simp add: s'_def)
    show "length ?jobs \<le> length (sys_store s')"
      by (simp add: s'_def)
    show "\<forall>n<length ?jobs. id_local (sys_store s' ! n) = id_local (?jobs ! n) \<and>
       status_rank (status (?jobs ! n)) \<le> status_rank (status (sys_store s' ! n)) \<and>
       (terminal (status (?jobs ! n)) \<longrightarrow>
          sys_store s' ! n = ?jobs ! n \<and>
          (\<forall>sid. CheckStatus (id_local (?jobs ! n)) sid \<notin> set es))"
      using per by blast
    show "\<forall>x. CreateJobElement x \<in> set es \<longrightarrow> status x = ''pending''"
      using q2 .
  qed
  from res cons adv show ?thesis by blast
qed


lemma exists_first_at: "i \<in> id_local ` set jobs \<Longrightarrow> \<exists>k. first_at i jobs k"
proof -
  assume "i \<in> id_local ` set jobs"
  then have "getJob i jobs \<noteq> None"
    by (auto simp: getJob_def find_None_iff)
  then show ?thesis
    using getJob_Some_first_at by fastforce
qed

lemma start_rejected:
  assumes "toLowerCase (pop (split_on CHR ''.'' (file_name f)))
        \<notin> set [''hwp'', ''hwpx'', ''odt'', ''docx''] \<or> MAX_FILE_SIZE < file_size f"
  shows "\<exists>msg. processFile_start f now rnd date jobs =
           \<lparr> store = jobs, emitted = [Alert msg], spawned = None, thrown = None \<rparr>"
  using assms by (auto simp: processFile_start_def Let_def)

lemma start_accepted:
  assumes "\<not> (toLowerCase (pop (split_on CHR ''.'' (file_name f)))
        \<notin> set [''hwp'', ''hwpx'', ''odt'', ''docx''] \<or> MAX_FILE_SIZE < file_size f)"
  shows "\<exists>k j u. j = fst (addJob now rnd date (file_name f) jobs) \<and>
           first_at (new_id now rnd) (jobs @ [j]) k \<and>
           u = ((jobs @ [j]) ! k)\<lparr>status := ''uploading'', progress := 10\<rparr> \<and>
           processFile_start f now rnd date jobs =
             \<lparr> store = (jobs @ [j])[k := u],
               emitted = [CreateJobElement j, UpdateJobElement u, UploadFile f],
               spawned = Some (AwaitUpload (new_id now rnd) f), thrown = None \<rparr>"
proof -
  define j where "j = fst (addJob now rnd date (file_name f) jobs)"
  have id: "id_local j = new_id now rnd"
    by (simp add: j_def addJob_id)
  have a: "addJob now rnd date (file_name f) jobs = (j, jobs @ [j])"
    unfolding j_def by (rule addJob_eq)
  have "new_id now rnd \<in> id_local ` set (jobs @ [j])"
    using id by (simp add: image_iff)
  then obtain k where k: "first_at (new_id now rnd) (jobs @ [j]) k"
    using exists_first_at by blast
  then have len: "k < length (jobs @ [j])"
    by (simp add: first_at_def)
  define u where "u = ((jobs @ [j]) ! k)\<lparr>status := ''uploading'', progress := 10\<rparr>"
  have up: "snd (updateJobStatus (new_id now rnd) (Some ''uploading'') (Some 10) None (jobs @ [j]))
           = (jobs @ [j])[k := u]"
    using first_at_updateJobStatus [OF k] by (simp add: assign_status_progress u_def)
  have "first_at (new_id now rnd) ((jobs @ [j])[k := u]) k"
    using k by (intro first_at_update) (auto simp: first_at_def u_def)
  then have g: "getJob (new_id now rnd) ((jobs @ [j])[k := u]) = Some u"
    using first_at_getJob len by fastforce
  have "processFile_start f now rnd date jobs =
             \<lparr> store = (jobs @ [j])[k := u],
               emitted = [CreateJobElement j, UpdateJobElement u, UploadFile f],
               spawned = Some (AwaitUpload (new_id now rnd) f), thrown = None \<rparr>"
    using assms by (simp add: processFile_start_def Let_def a id up g del: set_simps)
  with k j_def u_def show ?thesis
    by blast
qed

lemma advances_refl: "advances s s"
  unfolding advances_def by (intro exI [of _ "[]"]) simp

lemma submit_consistent:
  assumes c: "consistent s" and d: "distinct (map id_local (sys_store s'))"
    and st: "step (Submit f now rnd date) s = Some s'"
  shows "consistent s' \<and> advances s s'"
proof (cases "toLowerCase (pop (split_on CHR ''.'' (file_name f)))
        \<notin> set [''hwp'', ''hwpx'', ''odt'', ''docx''] \<or> MAX_FILE_SIZE < file_size f")
  case True
  from start_rejected [OF True] obtain msg where
    "processFile_start f now rnd date (sys_store s) =
           \<lparr> store = sys_store s, emitted = [Alert msg], spawned = None, thrown = None \<rparr>"
    by blast
  with st have s': "s' = \<lparr> sys_store = sys_store s, sys_tasks = sys_tasks s,
       sys_trace = sys_trace s @ [Alert msg] \<rparr>"
    by (auto simp: absorb_def)
  have "consistent s'"
    using c by (simp add: consistent_def s')
  moreover have "advances s s'"
    unfolding advances_def by (intro exI [of _ "[Alert msg]"]) (simp add: s')
  ultimately show ?thesis ..
next
  case False
  let ?jobs = "sys_store s"
  let ?i = "new_id now rnd"
  from start_accepted [OF False, of now rnd date ?jobs] obtain k j u where
    r: "j = fst (addJob now rnd date (file_name f) ?jobs)"
      "first_at ?i (?jobs @ [j]) k"
      "u = ((?jobs @ [j]) ! k)\<lparr>status := ''uploading'', progress := 10\<rparr>"
      "processFile_start f now rnd date ?jobs =
             \<lparr> store = (?jobs @ [j])[k := u],
               emitted = [CreateJobElement j, UpdateJobElement u, UploadFile f],
               spawned = Some (AwaitUpload ?i f), thrown = None \<rparr>"
    by blast
  define es where "es = [CreateJobElement j, UpdateJobElement u, UploadFile f]"
  from st r(4) have s': "s' = \<lparr> sys_store = (?jobs @ [j])[k := u],
       sys_tasks = sys_tasks s @ [AwaitUpload ?i f], sys_trace = sys_trace s @ es \<rparr>"
    by (simp add: absorb_def es_def)
  have idj: "id_local j = ?i"
    by (simp add: r(1) addJob_id)
  have idu: "id_local u = ?i"
    using r(2) by (simp add: r(3) first_at_def)
  have "map id_local ((?jobs @ [j])[k := u]) = (map id_local (?jobs @ [j]))[k := ?i]"
    using idu by (simp only: map_update)
  moreover have "map id_local (?jobs @ [j]) ! k = ?i"
    using r(2) by (simp only: first_at_def nth_map)
  ultimately have "map id_local ((?jobs @ [j])[k := u]) = map id_local (?jobs @ [j])"
    by (metis list_update_id)
  with d have fresh: "?i \<notin> id_local ` set ?jobs"
    by (simp add: s' idj)
  have "first_at ?i (?jobs @ [j]) (length ?jobs)"
    using fresh idj by (intro getJob_append_fresh)
  with r(2) have k: "k = length ?jobs"
    using first_at_unique by blast
  have u: "u = j\<lparr>status := ''uploading'', progress := 10\<rparr>"
    by (simp add: r(3) k)
  have store': "sys_store s' = ?jobs @ [u]"
    by (simp add: s' k)
  have owners: "task_owner t \<in> id_local ` set ?jobs" if "t \<in> set (sys_tasks s)" for t
    using c that unfolding consistent_def by (metis imageI)
  have c1: "distinct (map task_owner (sys_tasks s @ [AwaitUpload ?i f]))"
    using c owners fresh by (auto simp: consistent_def)
  have c2: "\<exists>x\<in>set (?jobs @ [u]). id_local x = task_owner t \<and> status x = task_phase t"
    if "t \<in> set (sys_tasks s @ [AwaitUpload ?i f])" for t
  proof (cases "t = AwaitUpload ?i f")
    case True
    then show ?thesis
      using idu by (simp add: u)
  next
    case False
    with that c show ?thesis
      unfolding consistent_def by auto
  qed
  have c3: "\<forall>x\<in>set (?jobs @ [u]). known_status (status x)"
    using c by (auto simp: consistent_def u)
  have "consistent s'"
    unfolding consistent_def store' using c1 c2 c3 by (simp add: s')
  moreover have "advances s s'"
    unfolding advances_def store'
    by (intro exI [of _ es]) (simp add: s' es_def nth_append r(1) addJob_fields)
  ultimately show ?thesis ..
qed

lemma step_consistent:
  assumes c: "consistent s" and d: "distinct (map id_local (sys_store s))"
    and d': "distinct (map id_local (sys_store s'))" and st: "step a s = Some s'"
  shows "consistent s' \<and> advances s s'"
proof (cases a)
  case (Submit f now rnd date)
  with submit_consistent [OF c d'] st show ?thesis by simp
next
  case (UploadSettles i f up)
  let ?t = "AwaitUpload i f"
  from st UploadSettles have "?t \<in> set (sys_tasks s)"
    by (simp add: resume_task_def split: if_splits)
  from resume_consistent [OF c d this, of "processFile_resume i up"] upload_settles_moves
    st UploadSettles
  show ?thesis by auto
next
  case (TimerFires i sid ms)
  let ?t = "Timer i sid ms"
  from st TimerFires have "?t \<in> set (sys_tasks s)"
    by (simp add: resume_task_def split: if_splits)
  from resume_consistent [OF c d this, of "pollStatus_start i sid"] timer_moves
    st TimerFires
  show ?thesis by auto
next
  case (StatusSettles i sid res rand)
  let ?t = "AwaitStatus i sid"
  from st StatusSettles have "?t \<in> set (sys_tasks s)" and g: "0 \<le> rand \<and> rand < 1"
    by (simp_all add: resume_task_def split: if_splits)
  from resume_consistent [OF c d this(1), of "pollStatus_resume i sid res rand"]
    status_settles_moves st StatusSettles g
  show ?thesis by auto
qed


lemma mutate_first_ids:
  "(\<And>x. id_local (f x) = id_local x) \<Longrightarrow> map id_local (mutate_first P f xs) = map id_local xs"
  by (induction xs) simp_all

lemma updateJobStatus_ids:
  "map id_local (snd (updateJobStatus i st pr sid jobs)) = map id_local jobs"
  by (simp add: updateJobStatus_def mutate_first_ids split: option.splits)

lemma set_error_ids: "map id_local (set_error i msg jobs) = map id_local jobs"
  by (simp add: set_error_def mutate_first_ids)

lemma catch_ids: "map id_local (store (processFile_catch i msg jobs)) = map id_local jobs"
  by (simp add: processFile_catch_def Let_def updateJobStatus_ids set_error_ids
      split: option.splits)

lemma upload_settles_ids:
  "map id_local (store (processFile_resume i up jobs)) = map id_local jobs"
  by (simp add: processFile_resume_def Let_def pollStatus_start_def catch_ids
      updateJobStatus_ids split: upload_result.splits option.splits)

lemma status_settles_ids:
  "map id_local (store (pollStatus_resume i sid res rand jobs)) = map id_local jobs"
  by (simp add: pollStatus_resume_def Let_def updateJobStatus_ids set_error_ids
      split: status_result.splits option.splits)

lemma start_ids:
  "\<exists>xs. map id_local (store (processFile_start f now rnd date jobs)) = map id_local jobs @ xs"
proof (cases "toLowerCase (pop (split_on CHR ''.'' (file_name f)))
        \<notin> set [''hwp'', ''hwpx'', ''odt'', ''docx''] \<or> MAX_FILE_SIZE < file_size f")
  case True
  from start_rejected [OF True, of now rnd date jobs] show ?thesis
    by auto
next
  case False
  from start_accepted [OF False, of now rnd date jobs] obtain k j u where
    r: "first_at (new_id now rnd) (jobs @ [j]) k"
      "u = ((jobs @ [j]) ! k)\<lparr>status := ''uploading'', progress := 10\<rparr>"
      "store (processFile_start f now rnd date jobs) = (jobs @ [j])[k := u]"
    by auto
  have "map id_local ((jobs @ [j])[k := u]) = (map id_local (jobs @ [j]))[k := id_local u]"
    by (simp only: map_update)
  moreover have "map id_local (jobs @ [j]) ! k = id_local ((jobs @ [j]) ! k)"
    using r(1) by (simp only: first_at_def nth_map)
  then have "map id_local (jobs @ [j]) ! k = id_local u"
    by (simp only: r(2)) simp
  ultimately have "map id_local ((jobs @ [j])[k := u]) = map id_local (jobs @ [j])"
    by (metis list_update_id)
  with r(3) show ?thesis
    by simp
qed

lemma step_ids:
  assumes "step a s = Some s'"
  shows "\<exists>xs. map id_local (sys_store s') = map id_local (sys_store s) @ xs"
proof (cases a)
  case (Submit f now rnd date)
  with assms show ?thesis
    using start_ids [of f now rnd date "sys_store s"] by (auto simp: absorb_def)
next
  case (UploadSettles i f up)
  with assms show ?thesis
    by (auto simp: resume_task_def absorb_def upload_settles_ids split: if_splits)
next
  case (TimerFires i sid ms)
  with assms show ?thesis
    by (auto simp: resume_task_def absorb_def pollStatus_start_def split: if_splits)
next
  case (StatusSettles i sid res rand)
  with assms show ?thesis
    by (auto simp: resume_task_def absorb_def status_settles_ids split: if_splits)
qed

lemma run_ids:
  "run acts s = Some s' \<Longrightarrow> \<exists>xs. map id_local (sys_store s') = map id_local (sys_store s) @ xs"
proof (induction acts arbitrary: s)
  case Nil
  then show ?case by simp
next
  case (Cons a acts)
  then obtain s1 where s1: "step a s = Some s1" "run acts s1 = Some s'"
    by (auto split: option.splits)
  from step_ids [OF s1(1)] Cons.IH [OF s1(2)] show ?case
    by auto
qed

lemma advances_trans:
  assumes "advances s s1" and "advances s1 s2"
  shows "advances s s2"
proof -
  from assms(1) obtain es where a:
    "sys_trace s1 = sys_trace s @ es" "length (sys_store s) \<le> length (sys_store s1)"
    "\<And>k. k < length (sys_store s) \<Longrightarrow>
           id_local (sys_store s1 ! k) = id_local (sys_store s ! k) \<and>
           status_rank (status (sys_store s ! k)) \<le> status_rank (status (sys_store s1 ! k)) \<and>
           (terminal (status (sys_store s ! k)) \<longrightarrow>
              sys_store s1 ! k = sys_store s ! k \<and>
              (\<forall>sid. CheckStatus (id_local (sys_store s ! k)) sid \<notin> set es))"
    "\<And>j. CreateJobElement j \<in> set es \<Longrightarrow> status j = ''pending''"
    unfolding advances_def by blast
  from assms(2) obtain es' where b:
    "sys_trace s2 = sys_trace s1 @ es'" "length (sys_store s1) \<le> length (sys_store s2)"
    "\<And>k. k < length (sys_store s1) \<Longrightarrow>
           id_local (sys_store s2 ! k) = id_local (sys_store s1 ! k) \<and>
           status_rank (status (sys_store s1 ! k)) \<le> status_rank (status (sys_store s2 ! k)) \<and>
           (terminal (status (sys_store s1 ! k)) \<longrightarrow>
              sys_store s2 ! k = sys_store s1 ! k \<and>
              (\<forall>sid. CheckStatus (id_local (sys_store s1 ! k)) sid \<notin> set es'))"
    "\<And>j. CreateJobElement j \<in> set es' \<Longrightarrow> status j = ''pending''"
    unfolding advances_def by blast
  have per: "id_local (sys_store s2 ! k) = id_local (sys_store s ! k) \<and>
           status_rank (status (sys_store s ! k)) \<le> status_rank (status (sys_store s2 ! k)) \<and>
           (terminal (status (sys_store s ! k)) \<longrightarrow>
              sys_store s2 ! k = sys_store s ! k \<and>
              (\<forall>sid. CheckStatus (id_local (sys_store s ! k)) sid \<notin> set (es @ es')))"
    if k: "k < length (sys_store s)" for k
  proof -
    from k a(2) have k1: "k < length (sys_store s1)" by simp
    note x = a(3) [OF k] and y = b(3) [OF k1]
    show ?thesis
    proof (cases "terminal (status (sys_store s ! k))")
      case True
      with x have "sys_store s1 ! k = sys_store s ! k" by simp
      with x y True show ?thesis by simp
    next
      case False
      with x y show ?thesis by simp
    qed
  qed
  show ?thesis
    unfolding advances_def
  proof (intro exI [of _ "es @ es'"] conjI)
    show "sys_trace s2 = sys_trace s @ es @ es'"
      using a(1) b(1) by simp
    show "length (sys_store s) \<le> length (sys_store s2)"
      using a(2) b(2) by simp
    show "\<forall>k<length (sys_store s). id_local (sys_store s2 ! k) = id_local (sys_store s ! k) \<and>
           status_rank (status (sys_store s ! k)) \<le> status_rank (status (sys_store s2 ! k)) \<and>
           (terminal (status (sys_store s ! k)) \<longrightarrow>
              sys_store s2 ! k = sys_store s ! k \<and>
              (\<forall>sid. CheckStatus (id_local (sys_store s ! k)) sid \<notin> set (es @ es')))"
      using per by blast
    show "\<forall>j. CreateJobElement j \<in> set (es @ es') \<longrightarrow> status j = ''pending''"
      using a(4) b(4) by auto
  qed
qed

lemma run_consistent:
  "consistent s \<Longrightarrow> run acts s = Some s' \<Longrightarrow> distinct (map id_local (sys_store s')) \<Longrightarrow>
   consistent s' \<and> advances s s'"
proof (induction acts arbitrary: s)
  case Nil
  then show ?case by (simp add: advances_refl)
next
  case (Cons a acts)
  then obtain s1 where s1: "step a s = Some s1" "run acts s1 = Some s'"
    by (auto split: option.splits)
  from run_ids [OF s1(2)] Cons.prems(3) have d1: "distinct (map id_local (sys_store s1))"
    by auto
  with step_ids [OF s1(1)] have d: "distinct (map id_local (sys_store s))"
    by auto
  from step_consistent [OF Cons.prems(1) d d1 s1(1)]
  have c1: "consistent s1" and a1: "advances s s1"
    by simp_all
  from Cons.IH [OF c1 s1(2) Cons.prems(3)] have "consistent s'" and "advances s1 s'"
    by simp_all
  with a1 show ?case
    using advances_trans by blast
qed

lemma consistent_init: "consistent init"
  by (simp add: consistent_def init_def)

text \<open>
  C2, amended. Take any state the upload-and-poll controller can reach and any later
  state, and suppose the identifiers in the later store are pairwise distinct. Then every
  job of the earlier state has one of the statuses \<^verbatim>\<open>uploading\<close>, \<^verbatim>\<open>processing\<close>,
  \<^verbatim>\<open>completed\<close>, \<^verbatim>\<open>failed\<close>; it is still in the later store, at the same place and
  with the same identifier, with a status that is not earlier in the order pending,
  uploading, processing, completed or failed; if it was \<^verbatim>\<open>completed\<close> or \<^verbatim>\<open>failed\<close>
  it is unchanged and no status query for it was made in between; and every job created
  in between was shown as \<^verbatim>\<open>pending\<close> at its creation.
\<close>

theorem status_lifecycle:
  assumes "run acts init = Some s" and "run acts' s = Some s'"
    and "distinct (map id_local (sys_store s'))"
  shows "\<exists>es. sys_trace s' = sys_trace s @ es \<and>
          length (sys_store s) \<le> length (sys_store s') \<and>
          (\<forall>k<length (sys_store s).
             status (sys_store s ! k)
               \<in> set [''uploading'', ''processing'', ''completed'', ''failed''] \<and>
             id_local (sys_store s' ! k) = id_local (sys_store s ! k) \<and>
             status_rank (status (sys_store s ! k)) \<le> status_rank (status (sys_store s' ! k)) \<and>
             (terminal (status (sys_store s ! k)) \<longrightarrow>
                sys_store s' ! k = sys_store s ! k \<and>
                (\<forall>sid. CheckStatus (id_local (sys_store s ! k)) sid \<notin> set es))) \<and>
          (\<forall>j. CreateJobElement j \<in> set es \<longrightarrow> status j = ''pending'')"
proof -
  from run_ids [OF assms(2)] assms(3) have d: "distinct (map id_local (sys_store s))"
    by auto
  from run_consistent [OF consistent_init assms(1) d] have c: "consistent s"
    by simp
  from run_consistent [OF c assms(2,3)] have "advances s s'"
    by simp
  then obtain es where a:
    "sys_trace s' = sys_trace s @ es" "length (sys_store s) \<le> length (sys_store s')"
    "\<forall>k<length (sys_store s).
           id_local (sys_store s' ! k) = id_local (sys_store s ! k) \<and>
           status_rank (status (sys_store s ! k)) \<le> status_rank (status (sys_store s' ! k)) \<and>
           (terminal (status (sys_store s ! k)) \<longrightarrow>
              sys_store s' ! k = sys_store s ! k \<and>
              (\<forall>sid. CheckStatus (id_local (sys_store s ! k)) sid \<notin> set es))"
    "\<forall>j. CreateJobElement j \<in> set es \<longrightarrow> status j = ''pending''"
    unfolding advances_def by blast
  have "status (sys_store s ! k) \<in> set [''uploading'', ''processing'', ''completed'', ''failed'']"
    if "k < length (sys_store s)" for k
    using c that unfolding consistent_def known_status_def by (metis nth_mem)
  with a show ?thesis
    by (intro exI [of _ es]) simp
qed

subsection \<open>No job disappears while it is worked on\<close>

text \<open>
  The controller keeps its \<open>JobManager\<close> to itself and never calls \<open>removeJob\<close>. So in
  every run the job of a suspended computation is still in the store when the
  computation resumes, and no exception escapes.
\<close>

lemma moves_job_quiet:
  assumes "moves_job i ph jobs r"
  shows "thrown r = None"
    and "\<And>t. spawned r = Some t \<Longrightarrow> task_owner t = i"
  using assms unfolding moves_job_def by (auto split: option.splits)

lemma resume_owned:
  assumes o: "owned s" and t: "t \<in> set (sys_tasks s)"
    and q: "thrown (code (sys_store s)) = None"
      "\<And>u. spawned (code (sys_store s)) = Some u \<Longrightarrow> task_owner u = task_owner t"
      "\<And>e. Uncaught e \<notin> set (emitted (code (sys_store s)))"
      "map id_local (store (code (sys_store s))) = map id_local (sys_store s)"
  shows "\<exists>s'. resume_task t s code = Some s' \<and> owned s'"
proof -
  let ?r = "code (sys_store s)"
  define s' where "s' = absorb (s\<lparr>sys_tasks := remove1 t (sys_tasks s)\<rparr>) ?r"
  have res: "resume_task t s code = Some s'"
    using t by (simp add: resume_task_def s'_def)
  have ids: "id_local ` set (sys_store s') = id_local ` set (sys_store s)"
    using q(4) by (simp add: s'_def absorb_def) (metis set_map)
  have "task_owner u \<in> id_local ` set (sys_store s)" if "u \<in> set (sys_tasks s')" for u
  proof -
    from that have "u \<in> set (remove1 t (sys_tasks s)) \<or> spawned ?r = Some u"
      by (auto simp: s'_def absorb_def split: option.splits)
    then show ?thesis
    proof
      assume "u \<in> set (remove1 t (sys_tasks s))"
      then have "u \<in> set (sys_tasks s)"
        using set_remove1_subset [of t "sys_tasks s"] by blast
      with o show ?thesis by (simp add: owned_def)
    next
      assume "spawned ?r = Some u"
      with q(2) t o show ?thesis by (simp add: owned_def)
    qed
  qed
  moreover have "Uncaught e \<notin> set (sys_trace s')" for e
    using o q(1,3) by (simp add: s'_def absorb_def owned_def)
  ultimately have "owned s'"
    unfolding owned_def ids by blast
  with res show ?thesis by blast
qed


lemma notify_quiet: "Uncaught e \<notin> set (notify i jobs)"
  by (simp add: notify_def split: option.splits)

lemma catch_quiet: "Uncaught e \<notin> set (emitted (processFile_catch i msg jobs))"
  by (simp add: processFile_catch_def Let_def notify_quiet split: option.splits)

lemma upload_settles_quiet: "Uncaught e \<notin> set (emitted (processFile_resume i up jobs))"
  by (simp add: processFile_resume_def pollStatus_start_def Let_def catch_quiet
      split: upload_result.splits option.splits)

lemma status_settles_quiet:
  "Uncaught e \<notin> set (emitted (pollStatus_resume i sid res rand jobs))"
  by (simp add: pollStatus_resume_def Let_def notify_quiet
      split: status_result.splits option.splits)

lemma step_owned:
  assumes o: "owned s" and st: "step a s = Some s'"
  shows "owned s'"
proof (cases a)
  case (Submit f now rnd date)
  let ?jobs = "sys_store s"
  let ?r = "processFile_start f now rnd date ?jobs"
  from st Submit have s': "s' = absorb s ?r"
    by simp
  from start_ids [of f now rnd date ?jobs]
  have sub: "id_local ` set ?jobs \<subseteq> id_local ` set (store ?r)"
    by (metis Un_upper1 set_append set_map)
  show ?thesis
  proof (cases "toLowerCase (pop (split_on CHR ''.'' (file_name f)))
        \<notin> set [''hwp'', ''hwpx'', ''odt'', ''docx''] \<or> MAX_FILE_SIZE < file_size f")
    case True
    from start_rejected [OF True, of now rnd date ?jobs] obtain msg where
      "?r = \<lparr> store = ?jobs, emitted = [Alert msg], spawned = None, thrown = None \<rparr>"
      by blast
    with o show ?thesis
      by (simp add: s' absorb_def owned_def)
  next
    case False
    from start_accepted [OF False, of now rnd date ?jobs] obtain k j u where
      r: "first_at (new_id now rnd) (?jobs @ [j]) k"
        "u = ((?jobs @ [j]) ! k)\<lparr>status := ''uploading'', progress := 10\<rparr>"
        "?r = \<lparr> store = (?jobs @ [j])[k := u],
               emitted = [CreateJobElement j, UpdateJobElement u, UploadFile f],
               spawned = Some (AwaitUpload (new_id now rnd) f), thrown = None \<rparr>"
      by blast
    have "id_local u = new_id now rnd" and "k < length (?jobs @ [j])"
      using r(1) by (simp_all add: r(2) first_at_def)
    then have "new_id now rnd \<in> id_local ` set ((?jobs @ [j])[k := u])"
      by (metis imageI set_update_memI)
    with sub o show ?thesis
      unfolding s' absorb_def owned_def r(3) by auto
  qed
next
  case (UploadSettles i f up)
  let ?t = "AwaitUpload i f"
  from st UploadSettles have t: "?t \<in> set (sys_tasks s)"
    by (simp add: resume_task_def split: if_splits)
  with o have "i \<in> id_local ` set (sys_store s)"
    by (force simp: owned_def)
  then obtain k where "first_at i (sys_store s) k"
    using exists_first_at by blast
  from upload_settles_moves [OF this, of up]
  have m: "moves_job i ''uploading'' (sys_store s) (processFile_resume i up (sys_store s))" .
  from resume_owned [OF o t, of "processFile_resume i up"]
    moves_job_quiet(1,2) [OF m] upload_settles_quiet upload_settles_ids st UploadSettles
  show ?thesis by auto
next
  case (TimerFires i sid ms)
  let ?t = "Timer i sid ms"
  from st TimerFires have t: "?t \<in> set (sys_tasks s)"
    by (simp add: resume_task_def split: if_splits)
  from resume_owned [OF o t, of "pollStatus_start i sid"] st TimerFires
  show ?thesis by (auto simp: pollStatus_start_def)
next
  case (StatusSettles i sid res rand)
  let ?t = "AwaitStatus i sid"
  from st StatusSettles have t: "?t \<in> set (sys_tasks s)" and g: "0 \<le> rand \<and> rand < 1"
    by (simp_all add: resume_task_def split: if_splits)
  with o have "i \<in> id_local ` set (sys_store s)"
    by (force simp: owned_def)
  then obtain k where "first_at i (sys_store s) k"
    using exists_first_at by blast
  from status_settles_moves [OF this, of sid res rand]
  have m: "moves_job i ''processing'' (sys_store s) (pollStatus_resume i sid res rand (sys_store s))" .
  from resume_owned [OF o t, of "pollStatus_resume i sid res rand"]
    moves_job_quiet(1,2) [OF m] status_settles_quiet status_settles_ids st StatusSettles g
  show ?thesis by auto
qed

lemma run_owned: "owned s \<Longrightarrow> run acts s = Some s' \<Longrightarrow> owned s'"
proof (induction acts arbitrary: s)
  case Nil
  then show ?case by simp
next
  case (Cons a acts)
  then obtain s1 where s1: "step a s = Some s1" "run acts s1 = Some s'"
    by (auto split: option.splits)
  from step_owned [OF Cons.prems(1) s1(1)] Cons.IH s1(2) show ?case
    by blast
qed

lemma run_never_throws:
  assumes "run acts init = Some s"
  shows "Uncaught e \<notin> set (sys_trace s)"
    and "\<forall>t\<in>set (sys_tasks s). task_owner t \<in> id_local ` set (sys_store s)"
proof -
  have "owned init"
    by (simp add: owned_def init_def)
  from run_owned [OF this assms] show "Uncaught e \<notin> set (sys_trace s)"
    and "\<forall>t\<in>set (sys_tasks s). task_owner t \<in> id_local ` set (sys_store s)"
    by (simp_all add: owned_def)
qed

subsection \<open>An example run\<close>

lemma example_id: "new_id 1730000000000 ''4fzzzxjyl'' = ''temp_1730000000000_4fzzzxjyl''"
  by (simp add: new_id_def number_toString.simps digit_char_def)

lemma example_submit: "processFile_start report_hwp 1730000000000 ''4fzzzxjyl'' 1730000000000 []
  = \<lparr> store = [j_up],
      emitted = [CreateJobElement (j_up\<lparr>status := ''pending'', progress := 0\<rparr>),
                 UpdateJobElement j_up, UploadFile report_hwp],
      spawned = Some (AwaitUpload ''temp_1730000000000_4fzzzxjyl'' report_hwp),
      thrown = None \<rparr>"
  by (simp add: processFile_start_def report_hwp_def string_eval MAX_FILE_SIZE_def addJob_def example_id
      updateJobStatus_def getJob_def assign_fields_def truthy_def sample_job_def j_up_def Let_def)

lemma example_upload_accepted: "processFile_resume ''temp_1730000000000_4fzzzxjyl'' (Accepted (Some ''J1'')) [j_up]
  = \<lparr> store = [sample_job],
      emitted = [UpdateJobElement sample_job, CheckStatus ''temp_1730000000000_4fzzzxjyl'' (Some ''J1'')],
      spawned = Some (AwaitStatus ''temp_1730000000000_4fzzzxjyl'' (Some ''J1'')),
      thrown = None \<rparr>"
  by (simp add: processFile_resume_def pollStatus_start_def
      updateJobStatus_def getJob_def assign_fields_def truthy_def sample_job_def j_up_def Let_def)

lemma example_completed: "pollStatus_resume ''temp_1730000000000_4fzzzxjyl'' (Some ''J1'')
     (Response \<lparr>data_status = ''completed'', data_error = None\<rparr>) 0 [sample_job]
  = \<lparr> store = [j_done], emitted = [UpdateJobElement j_done], spawned = None, thrown = None \<rparr>"
  by (simp add: pollStatus_resume_def notify_def
      updateJobStatus_def getJob_def assign_fields_def truthy_def sample_job_def j_done_def Let_def)

lemma example_resubmit: "processFile_start report_hwp 1730000000000 ''4fzzzxjyl'' 1730000000000 [j_done]
  = \<lparr> store = [j_done\<lparr>status := ''uploading'', progress := 10\<rparr>,
               j_up\<lparr>status := ''pending'', progress := 0\<rparr>],
      emitted = [CreateJobElement (j_up\<lparr>status := ''pending'', progress := 0\<rparr>),
                 UpdateJobElement (j_done\<lparr>status := ''uploading'', progress := 10\<rparr>),
                 UploadFile report_hwp],
      spawned = Some (AwaitUpload ''temp_1730000000000_4fzzzxjyl'' report_hwp),
      thrown = None \<rparr>"
  by (simp add: processFile_start_def report_hwp_def string_eval MAX_FILE_SIZE_def addJob_def example_id
      updateJobStatus_def getJob_def assign_fields_def truthy_def sample_job_def j_up_def
      j_done_def Let_def)

lemmas sys_eval = absorb_def resume_task_def init_def

theorem status_lifecycle_witness:
  "run [Submit report_hwp 1730000000000 ''4fzzzxjyl'' 1730000000000,
        UploadSettles ''temp_1730000000000_4fzzzxjyl'' report_hwp (Accepted (Some ''J1''))] init
     = Some s_processing \<and>
   run [StatusSettles ''temp_1730000000000_4fzzzxjyl'' (Some ''J1'')
           (Response \<lparr>data_status = ''completed'', data_error = None\<rparr>) 0] s_processing
     = Some s_completed \<and>
   distinct (map id_local (sys_store s_completed)) \<and>
   status (sys_store s_processing ! 0) = ''processing'' \<and>
   status (sys_store s_completed ! 0) = ''completed'' \<and>
   id_local (sys_store s_completed ! 0) = id_local (sys_store s_processing ! 0) \<and>
   status_rank (status (sys_store s_processing ! 0))
     \<le> status_rank (status (sys_store s_completed ! 0))"
proof -
  have h1: "run [Submit report_hwp 1730000000000 ''4fzzzxjyl'' 1730000000000,
        UploadSettles ''temp_1730000000000_4fzzzxjyl'' report_hwp (Accepted (Some ''J1''))] init
     = Some s_processing"
    by (simp add: sys_eval example_submit example_upload_accepted s_processing_def)
  have h2: "run [StatusSettles ''temp_1730000000000_4fzzzxjyl'' (Some ''J1'')
           (Response \<lparr>data_status = ''completed'', data_error = None\<rparr>) 0] s_processing
     = Some s_completed"
    by (simp add: sys_eval example_completed s_processing_def s_completed_def)
  have h3: "distinct (map id_local (sys_store s_completed))"
    by (simp add: s_completed_def)
  have len: "0 < length (sys_store s_processing)"
    by (simp add: s_processing_def)
  from status_lifecycle [OF h1 h2 h3] obtain es where
    "\<forall>k<length (sys_store s_processing).
             status (sys_store s_processing ! k)
               \<in> set [''uploading'', ''processing'', ''completed'', ''failed''] \<and>
             id_local (sys_store s_completed ! k) = id_local (sys_store s_processing ! k) \<and>
             status_rank (status (sys_store s_processing ! k))
               \<le> status_rank (status (sys_store s_completed ! k)) \<and>
             (terminal (status (sys_store s_processing ! k)) \<longrightarrow>
                sys_store s_completed ! k = sys_store s_processing ! k \<and>
                (\<forall>sid. CheckStatus (id_local (sys_store s_processing ! k)) sid \<notin> set es))"
    by blast
  with len have "id_local (sys_store s_completed ! 0) = id_local (sys_store s_processing ! 0)"
    "status_rank (status (sys_store s_processing ! 0))
       \<le> status_rank (status (sys_store s_completed ! 0))"
    by blast+
  moreover have "status (sys_store s_processing ! 0) = ''processing''"
    "status (sys_store s_completed ! 0) = ''completed''"
    by (simp_all add: s_processing_def s_completed_def sample_job_def j_done_def)
  ultimately show ?thesis
    using h1 h2 h3 by blast
qed

text \<open>
  C2. As stated (once a job is \<^verbatim>\<open>completed\<close> or \<^verbatim>\<open>failed\<close> nothing changes its status
  again) the claim fails: every update goes through \<open>getJob\<close>, which returns the first
  job with the identifier, and \<open>updateJobStatus\<close> accepts any status for any job. When a
  second submission draws the identifier of a job that is already \<^verbatim>\<open>completed\<close>, that
  job is set back to \<^verbatim>\<open>uploading\<close> and the new job stays \<^verbatim>\<open>pending\<close>.
\<close>

theorem completed_job_reopened:
  "map_option (map status \<circ> sys_store)
     (run [Submit report_hwp 1730000000000 ''4fzzzxjyl'' 1730000000000,
         UploadSettles ''temp_1730000000000_4fzzzxjyl'' report_hwp (Accepted (Some ''J1'')),
         StatusSettles ''temp_1730000000000_4fzzzxjyl'' (Some ''J1'')
           (Response \<lparr>data_status = ''completed'', data_error = None\<rparr>) 0] init)
     = Some [''completed''] \<and>
   map_option (map status \<circ> sys_store)
     (run [Submit report_hwp 1730000000000 ''4fzzzxjyl'' 1730000000000,
         UploadSettles ''temp_1730000000000_4fzzzxjyl'' report_hwp (Accepted (Some ''J1'')),
         StatusSettles ''temp_1730000000000_4fzzzxjyl'' (Some ''J1'')
           (Response \<lparr>data_status = ''completed'', data_error = None\<rparr>) 0,
         Submit report_hwp 1730000000000 ''4fzzzxjyl'' 1730000000000] init)
     = Some [''uploading'', ''pending'']"
  by (simp add: sys_eval example_submit example_upload_accepted example_completed example_resubmit) (simp add: j_done_def j_up_def)

end
